theory Spec2Isabelle
  imports Complex_Main "HOL-Library.Multiset" "HOL-Library.Product_Lexorder"
begin

section \<open>Visibility simulation for a HEALPix shell (eorsky/visibility.py)\<close>

text \<open>
  Floating-point numbers are idealised as real and complex numbers: rounding is not modelled.
  numpy does not raise on a floating-point division by zero, it goes on with nan or inf. An
  array element that may be nan is a \<open>real option\<close> (\<open>None\<close> is nan); functions that only
  ever see finite numbers work on \<open>real\<close>.
\<close>

subsection \<open>Errors and outcomes\<close>

datatype error =
  ValueError | AttributeError | AssertionError | KeyError | NotImplementedError
  | ZeroDivisionError | IndexError

definition bindE :: "error + 'a \<Rightarrow> ('a \<Rightarrow> error + 'b) \<Rightarrow> error + 'b" where
  "bindE r f = (case r of Inl e \<Rightarrow> Inl e | Inr x \<Rightarrow> f x)"

subsection \<open>Constants and unit conversion\<close>

text \<open>\<open>c_ms = c.to('m/s').value\<close>: the speed of light in m/s (astropy.constants).\<close>

definition c_ms :: real where
  "c_ms = 299792458"

text \<open>
  \<open>jy2Tstr(f, bm)\<close>, [K sr] / [Jy] at frequency \<open>f\<close> (Hz) with reference area \<open>bm\<close>:
  \<open>1e-23 * lam**2 / (2 * k_boltz * bm)\<close> with \<open>lam = c_cmps / f\<close>.
\<close>

definition jy2Tstr :: "real \<Rightarrow> real \<Rightarrow> real" where
  "jy2Tstr f bm =
     (let c_cmps = c_ms * 100;
          k_boltz = 1380658 / 10 ^ 22;
          lam = c_cmps / f
      in (1 / 10 ^ 23) * lam\<^sup>2 / (2 * k_boltz * bm))"

subsection \<open>The analytic beam\<close>

text \<open>
  Class \<open>analyticbeam\<close>: the tag \<open>beam_type\<close> is 'uniform' or 'gaussian', and a gaussian
  beam carries \<open>sigma\<close> in radians.
\<close>

datatype analyticbeam = UniformBeam | GaussianBeam real

definition analyticbeam_init :: "string \<Rightarrow> real option \<Rightarrow> error + analyticbeam" where
  "analyticbeam_init beam_type sigma =
     (if beam_type \<notin> {''uniform'', ''gaussian''} then Inl NotImplementedError
      else if beam_type = ''gaussian'' then
        (case sigma of
           None \<Rightarrow> Inl KeyError
         | Some s \<Rightarrow> Inr (GaussianBeam (s * pi / 180)))
      else Inr UniformBeam)"

text \<open>
  One element of \<open>np.exp(-(za**2) / (2 * self.sigma**2))\<close>. With \<open>sigma = 0\<close> the divisor
  is zero: numpy gives \<open>-0/0 = nan\<close> at \<open>za = 0\<close> and \<open>exp(-inf) = 0\<close> elsewhere.
\<close>

definition gaussian_val :: "real \<Rightarrow> real option \<Rightarrow> real option" where
  "gaussian_val sg z =
     (case z of
        None \<Rightarrow> None
      | Some za \<Rightarrow>
          if 2 * sg\<^sup>2 = 0 then (if za = 0 then None else Some 0)
          else Some (exp (- (za\<^sup>2) / (2 * sg\<^sup>2))))"

text \<open>
  \<open>beam_val(az, za, freq_Hz=None)\<close> on arrays: \<open>np.ones_like(az)\<close> for the uniform beam,
  the gaussian of \<open>za\<close> otherwise. \<open>freq_Hz\<close> is not used.
\<close>

definition beam_val ::
  "analyticbeam \<Rightarrow> real option list \<Rightarrow> real option list \<Rightarrow> real option \<Rightarrow> real option list" where
  "beam_val b az za freq_Hz =
     (case b of
        UniformBeam \<Rightarrow> map (\<lambda>_. Some 1) az
      | GaussianBeam sg \<Rightarrow> map (gaussian_val sg) za)"

subsection \<open>The fringe\<close>

text \<open>
  Elementwise product of two 1-D arrays with numpy's broadcasting: equal lengths, or one of
  them of length 1; anything else raises ValueError.
\<close>

definition np_mul :: "real list \<Rightarrow> real list \<Rightarrow> error + real list" where
  "np_mul xs ys =
     (if length xs = length ys then Inr (map2 (*) xs ys)
      else if length xs = 1 then Inr (map (\<lambda>y. hd xs * y) ys)
      else if length ys = 1 then Inr (map (\<lambda>x. x * hd ys) xs)
      else Inl ValueError)"

text \<open>\<open>np.vstack\<close> of 1-D arrays: the rows must have one length.\<close>

definition vstack :: "real list list \<Rightarrow> error + real list list" where
  "vstack rows =
     (if \<forall>r \<in> set rows. length r = length (hd rows) then Inr rows else Inl ValueError)"

text \<open>\<open>np.outer(a, b)\<close>: row \<open>j\<close> is \<open>a[j] * b\<close>.\<close>

definition outer :: "real list \<Rightarrow> real list \<Rightarrow> real list list" where
  "outer a b = map (\<lambda>x. map (\<lambda>y. x * y) b) a"

text \<open>
  \<open>np.einsum("jk,jl->kl", a, b)\<close>: \<open>out[k][l] = sum_j a[j][k] * b[j][l]\<close>; the two first
  axes must agree.
\<close>

definition ncols :: "'a list list \<Rightarrow> nat" where
  "ncols m = (case m of [] \<Rightarrow> 0 | r # _ \<Rightarrow> length r)"

definition einsum_jk_jl_kl :: "real list list \<Rightarrow> real list list \<Rightarrow> error + real list list" where
  "einsum_jk_jl_kl a b =
     (if length a \<noteq> length b then Inl ValueError
      else Inr (map (\<lambda>k. map (\<lambda>l. (\<Sum>j\<leftarrow>[0..<length a]. a ! j ! k * b ! j ! l))
                               [0..<ncols b])
                    [0..<ncols a]))"

definition make_fringe ::
  "real list \<Rightarrow> real list \<Rightarrow> real list \<Rightarrow> real list \<Rightarrow> error + complex list list" where
  "make_fringe az za freq bvec =
     bindE (np_mul (map sin az) (map sin za)) (\<lambda>pos_l.
     bindE (np_mul (map cos az) (map sin za)) (\<lambda>pos_m.
     let pos_n = map cos za in
     bindE (vstack [pos_l, pos_m, pos_n]) (\<lambda>lmn.
     let uvw = outer bvec (map (\<lambda>f. 1 / (c_ms / f)) freq) in
     bindE (einsum_jk_jl_kl lmn uvw) (\<lambda>udotl.
     Inr (map (map (\<lambda>x. complex_of_real (cos (2 * pi * x))
                        + \<i> * complex_of_real (sin (2 * pi * x)))) udotl)))))"

subsection \<open>Baselines\<close>

text \<open>
  Class \<open>baseline\<close>: \<open>enu = ant1_enu - ant2_enu\<close>, with \<open>assert(self.enu.size == 3)\<close>,
  so the vector of a baseline that exists has three components. A difference of arrays of
  unequal length (neither of length 1) raises ValueError.
\<close>

type_synonym vec3 = "real \<times> real \<times> real"

record baseline =
  enu :: vec3

definition vec3_list :: "vec3 \<Rightarrow> real list" where
  "vec3_list v = (case v of (a, b, c) \<Rightarrow> [a, b, c])"

definition np_sub :: "real list \<Rightarrow> real list \<Rightarrow> error + real list" where
  "np_sub xs ys =
     (if length xs = length ys then Inr (map2 (-) xs ys)
      else if length xs = 1 then Inr (map (\<lambda>y. hd xs - y) ys)
      else if length ys = 1 then Inr (map (\<lambda>x. x - hd ys) xs)
      else Inl ValueError)"

definition baseline_init :: "real list \<Rightarrow> real list \<Rightarrow> error + baseline" where
  "baseline_init ant1_enu ant2_enu =
     bindE (np_sub ant1_enu ant2_enu) (\<lambda>d.
       if length d = 3 then Inr \<lparr>enu = (d ! 0, d ! 1, d ! 2)\<rparr> else Inl AssertionError)"

definition get_uvw :: "baseline \<Rightarrow> real \<Rightarrow> real list" where
  "get_uvw bl freq_Hz = map (\<lambda>x. x / (c_ms / freq_Hz)) (vec3_list (enu bl))"

text \<open>
  \<open>get_fringe(az, za, freq_Hz, degrees)\<close> receives references to the caller's arrays.
  The store maps an address to the array it holds; \<open>az *= np.pi/180.\<close> writes the scaled
  array back to the address of \<open>az\<close>, then \<open>za *= np.pi/180.\<close> does the same at the
  address of \<open>za\<close> (which may be the same address). The function returns the store it
  leaves behind and the fringe.
\<close>

type_synonym store = "nat \<Rightarrow> real list"

definition imul :: "store \<Rightarrow> nat \<Rightarrow> real \<Rightarrow> store" where
  "imul st a k = st(a := map (\<lambda>x. x * k) (st a))"

definition get_fringe ::
  "baseline \<Rightarrow> store \<Rightarrow> nat \<Rightarrow> nat \<Rightarrow> real list \<Rightarrow> bool
     \<Rightarrow> store \<times> (error + complex list list)" where
  "get_fringe bl st az za freq_Hz degrees =
     (let st1 = (if degrees then imul (imul st az (pi / 180)) za (pi / 180) else st)
      in (st1, make_fringe (st1 az) (st1 za) freq_Hz (vec3_list (enu bl))))"

subsection \<open>Geometry: local azimuth and zenith angle\<close>

text \<open>
  healpy is a library outside the repository. Its pixelisation enters as a parameter:
  \<open>query_disc Nside vec radius\<close> lists the pixels whose centres lie within \<open>radius\<close> of
  \<open>vec\<close>, and \<open>pix2vec Nside p\<close> is the unit vector of pixel \<open>p\<close>.
\<close>

record healpix =
  query_disc :: "nat \<Rightarrow> vec3 \<Rightarrow> real \<Rightarrow> nat list"
  pix2vec :: "nat \<Rightarrow> nat \<Rightarrow> vec3"

definition radians :: "real \<Rightarrow> real" where
  "radians x = x * pi / 180"

text \<open>
  \<open>hp.ang2vec(lon, lat, lonlat=True)\<close>, as healpy documents it: the unit vector at
  colatitude \<open>theta = pi/2 - radians(lat)\<close> and longitude \<open>phi = radians(lon)\<close>. A centre
  is a (lon, lat) pair in degrees with \<open>lat\<close> between -90 and 90.
\<close>

definition ang2vec :: "real \<Rightarrow> real \<Rightarrow> vec3" where
  "ang2vec lon lat =
     (let theta = pi / 2 - radians lat; phi = radians lon
      in (sin theta * cos phi, sin theta * sin phi, cos theta))"

text \<open>
  \<open>hp.npix2nside(Npix)\<close>: ValueError unless \<open>Npix = 12 * Nside**2\<close> for a whole number
  \<open>Nside\<close>, which it returns.
\<close>

definition npix2nside :: "nat \<Rightarrow> error + nat" where
  "npix2nside Npix =
     (case find (\<lambda>nside. 12 * nside\<^sup>2 = Npix) [0..<Suc Npix] of
        Some nside \<Rightarrow> Inr nside
      | None \<Rightarrow> Inl ValueError)"

definition dot :: "vec3 \<Rightarrow> vec3 \<Rightarrow> real" where
  "dot u v = (case u of (u0, u1, u2) \<Rightarrow> case v of (v0, v1, v2) \<Rightarrow> u0 * v0 + u1 * v1 + u2 * v2)"

definition cross :: "vec3 \<Rightarrow> vec3 \<Rightarrow> vec3" where
  "cross u v =
     (case u of (u0, u1, u2) \<Rightarrow> case v of (v0, v1, v2) \<Rightarrow>
        (u1 * v2 - u2 * v1, u2 * v0 - u0 * v2, u0 * v1 - u1 * v0))"

text \<open>
  \<open>np.arctan2(y, x)\<close>, the angle of the point \<open>(x, y)\<close> in \<open>(-pi, pi]\<close>, and
  \<open>a % m\<close> on floats, \<open>a - m * floor(a / m)\<close>. \<open>np.arccos\<close> is nan outside
  \<open>[-1, 1]\<close>.
\<close>

definition arctan2 :: "real \<Rightarrow> real \<Rightarrow> real" where
  "arctan2 y x =
     (if 0 < x then arctan (y / x)
      else if x < 0 then (if 0 \<le> y then arctan (y / x) + pi else arctan (y / x) - pi)
      else if 0 < y then pi / 2
      else if y < 0 then - (pi / 2)
      else 0)"

definition fmod :: "real \<Rightarrow> real \<Rightarrow> real" where
  "fmod a m = a - m * of_int \<lfloor>a / m\<rfloor>"

definition np_arccos :: "real \<Rightarrow> real option" where
  "np_arccos x = (if - 1 \<le> x \<and> x \<le> 1 then Some (arccos x) else None)"

text \<open>
  The local frame of \<open>calc_azza\<close>:
  \<open>colat = np.radians(90. - center[1])\<close>,
  \<open>xvec = [-cvec[1], cvec[0], 0] * 1 / np.sin(colat)\<close>,
  \<open>yvec = np.cross(cvec, xvec)\<close>.
  When \<open>np.sin(colat)\<close> is zero the third component of \<open>xvec\<close> is \<open>0/0 = nan\<close>, and with
  it every product with \<open>xvec\<close>: \<open>xvec\<close> is then \<open>None\<close>.
\<close>

definition local_x :: "vec3 \<Rightarrow> real \<Rightarrow> vec3 option" where
  "local_x cvec colat =
     (case cvec of (c0, c1, c2) \<Rightarrow>
        if sin colat = 0 then None
        else Some (- c1 / sin colat, c0 / sin colat, 0 / sin colat))"

definition local_y :: "vec3 \<Rightarrow> vec3 option \<Rightarrow> vec3 option" where
  "local_y cvec xvec = map_option (cross cvec) xvec"

text \<open>One element of \<open>(np.arctan2(sdotx, sdoty) + np.pi) % (2 * np.pi)\<close>.\<close>

definition azimuth :: "real option \<Rightarrow> real option \<Rightarrow> real option" where
  "azimuth sdotx sdoty =
     (case (sdotx, sdoty) of
        (Some sx, Some sy) \<Rightarrow> Some (fmod (arctan2 sx sy + pi) (2 * pi))
      | _ \<Rightarrow> None)"

text \<open>
  \<open>calc_azza(Nside, center, return_inds=True)\<close> returns \<open>(za_arr, az_arr, pix)\<close>; without
  \<open>return_inds\<close> the caller gets the first two. \<open>fv\<close> is \<open>self.fov\<close>.
\<close>

definition calc_azza ::
  "healpix \<Rightarrow> real option \<Rightarrow> nat \<Rightarrow> real \<times> real
     \<Rightarrow> error + (real option list \<times> real option list \<times> nat list)" where
  "calc_azza hp fv Nside center =
     (case fv of
        None \<Rightarrow> Inl AttributeError
      | Some fov_deg \<Rightarrow>
          let radius = fov_deg * pi / 180 * 1 / 2;
              cvec = ang2vec (fst center) (snd center);
              pix = query_disc hp Nside cvec radius;
              vecs = map (pix2vec hp Nside) pix;
              colat = radians (90 - snd center);
              xvec = local_x cvec colat;
              yvec = local_y cvec xvec;
              sdotx = map (\<lambda>v. map_option (dot v) xvec) vecs;
              sdotz = map (\<lambda>v. dot v cvec) vecs;
              sdoty = map (\<lambda>v. map_option (dot v) yvec) vecs;
              za_arr = map np_arccos sdotz;
              az_arr = map2 azimuth sdotx sdoty
          in Inr (za_arr, az_arr, pix))"

subsection \<open>The observatory and the sky shell\<close>

text \<open>
  Class \<open>observatory\<close>, configured: \<open>fov\<close> is \<open>None\<close> until \<open>set_fov\<close>, and
  \<open>set_pointings\<close> stores the times with one pointing centre (ra, dec in degrees) for each.
  \<open>self.Nfreqs\<close> is \<open>len(freqs)\<close>.
\<close>

record observatory =
  lat :: real
  lon :: real
  array :: "baseline list"
  fov :: "real option"
  freqs :: "real list"
  beam :: analyticbeam
  pointing_centers :: "(real \<times> real) list"
  times_jd :: "real list"

definition Nfreqs :: "observatory \<Rightarrow> nat" where
  "Nfreqs obs = length (freqs obs)"

definition set_fov :: "real \<Rightarrow> observatory \<Rightarrow> observatory" where
  "set_fov fov_deg obs = obs\<lparr>fov := Some fov_deg\<rparr>"

definition set_beam :: "string \<Rightarrow> real option \<Rightarrow> observatory \<Rightarrow> error + observatory" where
  "set_beam beam_type sigma obs =
     bindE (analyticbeam_init beam_type sigma) (\<lambda>b. Inr (obs\<lparr>beam := b\<rparr>))"

text \<open>
  \<open>set_pointings(time_arr)\<close>; \<open>zen_radec\<close> is astropy's transform of the direction
  \<open>alt = 89d, az = 0d\<close> at a time and place to ICRS (ra, dec).
\<close>

definition set_pointings ::
  "(real \<Rightarrow> real \<Rightarrow> real \<Rightarrow> real \<times> real) \<Rightarrow> real list \<Rightarrow> observatory \<Rightarrow> observatory" where
  "set_pointings zen_radec time_arr obs =
     obs\<lparr>times_jd := time_arr,
         pointing_centers := map (zen_radec (lon obs) (lat obs)) time_arr\<rparr>"

text \<open>
  The shell is an array of shape \<open>(Npix, Nfreqs)\<close> (\<open>skies = None\<close>) or
  \<open>(Nskies, Npix, Nfreqs)\<close>; \<open>temp s p f\<close> is its element, with \<open>s = 0\<close> when there is
  no sky axis. A visibility of a shell without sky axis is modelled as the one-sky row
  \<open>[v]\<close>.
\<close>

record shell =
  skies :: "nat option"
  npix :: nat
  nfreqs :: nat
  temp :: "nat \<Rightarrow> nat \<Rightarrow> nat \<Rightarrow> real"

definition leading :: "shell \<Rightarrow> nat" where
  "leading sh = (case skies sh of None \<Rightarrow> 1 | Some n \<Rightarrow> n)"

subsection \<open>One worker: \<open>vis_calc\<close>\<close>

text \<open>
  \<open>np.sum(shell[..., pix, :] * beam_cube * fringe_cube, axis=-2)\<close> for finite cubes of shape
  \<open>(len(pix), Nfreqs)\<close>.
\<close>

definition vis_sum :: "shell \<Rightarrow> nat list \<Rightarrow> real list list \<Rightarrow> complex list list \<Rightarrow> complex list list" where
  "vis_sum sh pix beam_cube fringe_cube =
     map (\<lambda>s. map (\<lambda>f. (\<Sum>k\<leftarrow>[0..<length pix].
                         complex_of_real (temp sh s (pix ! k) f)
                           * complex_of_real (beam_cube ! k ! f) * fringe_cube ! k ! f))
                    [0..<nfreqs sh])
         [0..<leading sh]"

text \<open>
  \<open>bl.get_fringe(az_arr, za_arr, self.freqs)\<close> on the two arrays of \<open>calc_azza\<close>, held
  at the addresses 0 and 1 of a store. A nan angle leaves nan in its row of the fringe
  (\<open>None\<close>), and no exception.
\<close>

definition fringe_cube_of ::
  "baseline \<Rightarrow> real option list \<Rightarrow> real option list \<Rightarrow> real list
     \<Rightarrow> error + complex list list option" where
  "fringe_cube_of bl az_arr za_arr fq =
     (case (those az_arr, those za_arr) of
        (Some az, Some za) \<Rightarrow>
          (case snd (get_fringe bl ((\<lambda>_. [])(0 := az, 1 := za)) 0 1 fq False) of
             Inl e \<Rightarrow> Inl e
           | Inr fringe \<Rightarrow> Inr (Some fringe))
      | _ \<Rightarrow> Inr None)"

text \<open>
  The visibility of one time and baseline. A nan in the beam or in the fringe at one pixel
  makes the sum over the pixels nan at every sky and frequency: the visibility is \<open>None\<close>.
  \<open>beam_cube\<close> is \<open>np.repeat(beam_one[...,np.newaxis], self.Nfreqs, axis=1)\<close>.
\<close>

definition vis_of ::
  "shell \<Rightarrow> nat list \<Rightarrow> real option list \<Rightarrow> nat \<Rightarrow> complex list list option
     \<Rightarrow> complex list list option" where
  "vis_of sh pix beam_one Nf fringe_cube =
     (case (those beam_one, fringe_cube) of
        (Some b, Some fringe) \<Rightarrow> Some (vis_sum sh pix (map (replicate Nf) b) fringe)
      | _ \<Rightarrow> None)"

type_synonym row = "nat \<times> nat \<times> complex list list option"

text \<open>
  The loop over \<open>enumerate(self.array)\<close>: the rows put on the queue, and the exception
  that ended the loop, if any.
\<close>

fun baseline_loop ::
  "observatory \<Rightarrow> shell \<Rightarrow> real option list \<times> real option list \<times> nat list \<Rightarrow> real option list
     \<Rightarrow> nat \<Rightarrow> (nat \<times> baseline) list \<Rightarrow> row list \<times> error option" where
  "baseline_loop obs sh azza beam_one tind [] = ([], None)"
| "baseline_loop obs sh azza beam_one tind ((bi, bl) # rest) =
     (case azza of (za_arr, az_arr, pix) \<Rightarrow>
        (case fringe_cube_of bl az_arr za_arr (freqs obs) of
           Inl e \<Rightarrow> ([], Some e)
         | Inr fringe_cube \<Rightarrow>
             (case baseline_loop obs sh azza beam_one tind rest of
                (rows, r) \<Rightarrow>
                  ((tind, bi, vis_of sh pix beam_one (Nfreqs obs) fringe_cube) # rows, r))))"

text \<open>
  The loop over \<open>enumerate(pcents)\<close>; \<open>cnt\<close> is the source's \<open>count\<close>, and
  \<open>tinds[count]\<close> the time index of a row.
\<close>

fun vis_loop ::
  "healpix \<Rightarrow> observatory \<Rightarrow> shell \<Rightarrow> nat \<Rightarrow> nat list \<Rightarrow> (nat \<times> real \<times> real) list
     \<Rightarrow> row list \<times> error option" where
  "vis_loop hp obs sh Nside tinds [] = ([], None)"
| "vis_loop hp obs sh Nside tinds ((cnt, c) # rest) =
     (case calc_azza hp (fov obs) Nside c of
        Inl e \<Rightarrow> ([], Some e)
      | Inr (za_arr, az_arr, pix) \<Rightarrow>
          (let beam_one = beam_val (beam obs) az_arr za_arr None
           in case baseline_loop obs sh (za_arr, az_arr, pix) beam_one (tinds ! cnt)
                     (enumerate 0 (array obs)) of
                (rows, Some e) \<Rightarrow> (rows, Some e)
              | (rows, None) \<Rightarrow>
                  (case vis_loop hp obs sh Nside tinds rest of
                     (rows2, r) \<Rightarrow> (rows @ rows2, r))))"

definition vis_calc ::
  "healpix \<Rightarrow> observatory \<Rightarrow> shell \<Rightarrow> nat \<Rightarrow> (real \<times> real) list \<Rightarrow> nat list
     \<Rightarrow> row list \<times> error option" where
  "vis_calc hp obs sh Nside pcents tinds =
     (if length pcents = 0 then ([], None)
      else vis_loop hp obs sh Nside tinds (enumerate 0 pcents))"

subsection \<open>The controller: \<open>make_visibilities\<close>\<close>

text \<open>
  \<open>np.array_split(ary, Nsections)\<close>: ValueError unless \<open>Nsections > 0\<close>; the first
  \<open>len(ary) % Nsections\<close> sections have \<open>len(ary) // Nsections + 1\<close> elements, the others
  \<open>len(ary) // Nsections\<close>.
\<close>

fun chop :: "nat list \<Rightarrow> 'a list \<Rightarrow> 'a list list" where
  "chop [] xs = []"
| "chop (n # ns) xs = take n xs # chop ns (drop n xs)"

definition section_sizes :: "nat \<Rightarrow> nat \<Rightarrow> nat list" where
  "section_sizes Ntotal Nsections =
     (let Neach_section = Ntotal div Nsections; extras = Ntotal mod Nsections
      in replicate extras (Neach_section + 1) @ replicate (Nsections - extras) Neach_section)"

definition array_split :: "'a list \<Rightarrow> nat \<Rightarrow> error + 'a list list" where
  "array_split ary Nsections =
     (if Nsections = 0 then Inl ValueError
      else Inr (chop (section_sizes (length ary) Nsections) ary))"

text \<open>
  The results queue. Each worker puts its rows in its own order; the order in which the puts
  of different workers reach the queue is not fixed by the program. \<open>sched\<close> names, put by
  put, the worker whose next row comes; a step that names a worker with nothing left to put
  is skipped, and once the schedule is used up the remaining rows follow worker by worker.
\<close>

fun interleave :: "nat list \<Rightarrow> 'a list list \<Rightarrow> 'a list" where
  "interleave [] outs = concat outs"
| "interleave (w # ws) outs =
     (if w < length outs \<and> outs ! w \<noteq> []
      then hd (outs ! w) # interleave ws (outs[w := tl (outs ! w)])
      else interleave ws outs)"

text \<open>
  The orders in which the rows of the workers can reach the queue: every worker's rows in
  that worker's order. They are the orders that the schedules produce (lemmas
  \<open>interleaving_has_schedule\<close> and \<open>interleave_is_interleaving\<close>).
\<close>

inductive interleaving :: "'a list list \<Rightarrow> 'a list \<Rightarrow> bool" where
  all_put: "\<forall>out \<in> set outs. out = [] \<Longrightarrow> interleaving outs []"
| next_put: "w < length outs \<Longrightarrow> outs ! w = x # rest \<Longrightarrow> interleaving (outs[w := rest]) q
          \<Longrightarrow> interleaving outs (x # q)"

text \<open>
  \<open>np.lexsort((time_inds, baseline_inds))\<close>: the indices that sort by the last key first,
  \<open>baseline_inds\<close>, then by \<open>time_inds\<close>; the sort is stable.
\<close>

definition lexsort :: "nat list \<Rightarrow> nat list \<Rightarrow> nat list" where
  "lexsort time_inds baseline_inds =
     sort_key (\<lambda>i. (baseline_inds ! i, time_inds ! i)) [0..<length baseline_inds]"

text \<open>
  The drain loop and the sort: from the queue's content, in the order it is read, to
  \<open>(time_inds[srt], baseline_inds[srt], visibilities[srt])\<close>.
\<close>

definition collect :: "row list \<Rightarrow> nat list \<times> nat list \<times> complex list list option list" where
  "collect queue =
     (let visibilities = map (\<lambda>(ti, bi, varr). varr) queue;
          time_inds = map (\<lambda>(ti, bi, varr). ti) queue;
          baseline_inds = map (\<lambda>(ti, bi, varr). bi) queue;
          srt = lexsort time_inds baseline_inds
      in (map (\<lambda>i. time_inds ! i) srt, map (\<lambda>i. baseline_inds ! i) srt,
          map (\<lambda>i. visibilities ! i) srt))"

text \<open>
  \<open>visibilities/conv_fact\<close>, the division along the frequency axis; nan stays nan. At a
  frequency 0 numpy's factor is inf and the quotient of a number by it is 0; here the factor
  is 0 and the quotient is 0 as well.
\<close>

definition div_conv :: "real list \<Rightarrow> complex list list option \<Rightarrow> complex list list option" where
  "div_conv conv_fact v =
     map_option (map (\<lambda>r. map2 (\<lambda>x c. x / complex_of_real c) r conv_fact)) v"

text \<open>
  The workers: the split of the pointing centres and of the time indices into \<open>Nprocs\<close>
  sections, one \<open>vis_calc\<close> process for each, and the content of the queue once every
  worker has ended, in the order it will be read.
\<close>

definition run_workers ::
  "healpix \<Rightarrow> observatory \<Rightarrow> shell \<Rightarrow> nat \<Rightarrow> nat \<Rightarrow> nat list \<Rightarrow> error + row list" where
  "run_workers hp obs sh Nside Nprocs sched =
     (let Ntimes = length (pointing_centers obs)
      in bindE (array_split (pointing_centers obs) Nprocs) (\<lambda>pcenter_list.
         bindE (array_split [0..<Ntimes] Nprocs) (\<lambda>time_inds.
         let puts = map (\<lambda>p. fst (vis_calc hp obs sh Nside (pcenter_list ! p) (time_inds ! p)))
                        [0..<Nprocs]
         in Inr (interleave sched puts))))"

text \<open>
  What a call does: it returns, it raises, or it never returns. The controller leaves its
  wait loop when every time is counted or no worker is alive; each worker ends, so it does
  leave it. Then \<open>iter(vis_array.get, None)\<close> blocks for a first row: with an empty queue
  the call blocks for ever, otherwise the loop reads rows until \<open>vis_array.empty()\<close>.
\<close>

datatype 'a outcome = Returns 'a | Raises error | Hangs

definition make_visibilities ::
  "healpix \<Rightarrow> observatory \<Rightarrow> shell \<Rightarrow> nat \<Rightarrow> nat list
     \<Rightarrow> (complex list list option list \<times> real list \<times> nat list) outcome" where
  "make_visibilities hp obs sh Nprocs sched =
     (if nfreqs sh \<noteq> Nfreqs obs then Raises AssertionError
      else case npix2nside (npix sh) of
        Inl e \<Rightarrow> Raises e
      | Inr Nside \<Rightarrow>
          (if npix sh = 0 then Raises ZeroDivisionError
           else
             (let pix_area_sr = 4 * pi / real (npix sh);
                  conv_fact = map (\<lambda>f. jy2Tstr f pix_area_sr) (freqs obs)
              in (case run_workers hp obs sh Nside Nprocs sched of
                    Inl e \<Rightarrow> Raises e
                  | Inr queue \<Rightarrow>
                      (if queue = [] then Hangs
                       else (case collect queue of
                         (time_inds_srt, baseline_array, visibilities) \<Rightarrow>
                           if \<exists>t \<in> set time_inds_srt. length (times_jd obs) \<le> t
                           then Raises IndexError
                           else Returns (map (div_conv conv_fact) visibilities,
                                         map (\<lambda>t. times_jd obs ! t) time_inds_srt,
                                         baseline_array)))))))"

subsection \<open>Definitions used to state the properties\<close>

text \<open>
  The fringe of one direction and frequency in the words of the specification:
  \<open>cos(2 pi u.l) + i sin(2 pi u.l)\<close> with the direction cosines
  \<open>l = (sin(az)sin(za), cos(az)sin(za), cos(za))\<close> and \<open>u\<close> the baseline divided by the
  wavelength \<open>c / f\<close>.
\<close>

definition fringe_spec :: "real \<Rightarrow> real \<Rightarrow> real \<Rightarrow> vec3 \<Rightarrow> complex" where
  "fringe_spec az za f b =
     (let l = (sin az * sin za, cos az * sin za, cos za);
          wavelength = c_ms / f;
          u = (case b of (e, n, up) \<Rightarrow> (e / wavelength, n / wavelength, up / wavelength));
          ul = dot u l
      in complex_of_real (cos (2 * pi * ul)) + \<i> * complex_of_real (sin (2 * pi * ul)))"

text \<open>
  The azimuth in the words of the specification: \<open>atan2(d.x, d.y)\<close> wrapped into
  \<open>[0, 2 pi)\<close>.
\<close>

definition azimuth_spec :: "real \<Rightarrow> real \<Rightarrow> real" where
  "azimuth_spec dx dy = fmod (arctan2 dx dy) (2 * pi)"

text \<open>A pixelisation whose disc holds the one pixel 0, of direction \<open>v\<close>, for examples.\<close>

definition one_pixel :: "vec3 \<Rightarrow> healpix" where
  "one_pixel v = \<lparr>query_disc = (\<lambda>Nside vec radius. [0]), pix2vec = (\<lambda>Nside p. v)\<rparr>"

text \<open>The sort key of a row of the queue: the baseline index, then the time index.\<close>

definition row_key :: "row \<Rightarrow> nat \<times> nat" where
  "row_key r = (case r of (ti, bi, varr) \<Rightarrow> (bi, ti))"

text \<open>
  The visibility that \<open>vis_calc\<close> computes for the pointing centre \<open>c\<close> and the baseline
  \<open>bl\<close>, before the unit conversion.
\<close>

definition snapshot_vis ::
  "healpix \<Rightarrow> observatory \<Rightarrow> shell \<Rightarrow> nat \<Rightarrow> real \<times> real \<Rightarrow> baseline \<Rightarrow> complex list list option" where
  "snapshot_vis hp obs sh Nside c bl =
     (case calc_azza hp (fov obs) Nside c of
        Inl e \<Rightarrow> None
      | Inr (za_arr, az_arr, pix) \<Rightarrow>
          (case fringe_cube_of bl az_arr za_arr (freqs obs) of
             Inl e \<Rightarrow> None
           | Inr fringe_cube \<Rightarrow>
               vis_of sh pix (beam_val (beam obs) az_arr za_arr None) (Nfreqs obs) fringe_cube))"

text \<open>
  The (baseline index, time index) pairs in ascending order: baseline 0 with every time,
  then baseline 1 with every time, and so on.
\<close>

definition canonical_pairs :: "observatory \<Rightarrow> (nat \<times> nat) list" where
  "canonical_pairs obs = List.product [0..<length (array obs)] [0..<length (pointing_centers obs)]"

text \<open>
  The row of baseline \<open>b\<close> and time \<open>t\<close> in the arrays that \<open>make_visibilities\<close>
  returns.
\<close>

definition row_index :: "observatory \<Rightarrow> nat \<Rightarrow> nat \<Rightarrow> nat" where
  "row_index obs b t = b * length (pointing_centers obs) + t"

text \<open>
  An observatory of two baselines and three times, and a shell of 12 pixels (Nside 1), one
  sky and one frequency, for examples.
\<close>

definition obs0 :: observatory where
  "obs0 = \<lparr>lat = - 30, lon = 21, array = [\<lparr>enu = (0, - 14, 0)\<rparr>, \<lparr>enu = (0, 0, 0)\<rparr>], fov = Some 120,
            freqs = [100000000], beam = UniformBeam,
            pointing_centers = [(0, 0), (1, 0), (2, 0)], times_jd = [2451545, 2451546, 2451547]\<rparr>"

definition shell0 :: shell where
  "shell0 = \<lparr>skies = Some 1, npix = 12, nfreqs = 1, temp = (\<lambda>s p f. 2)\<rparr>"

section \<open>Properties\<close>

subsection \<open>The fringe\<close>

lemma upt3: "[0..<3] = [0, 1, 2]"
  by (simp add: upt_rec)

lemma make_fringe_closed_form:
  assumes "length az = length za"
  shows "make_fringe az za freq [e0, e1, e2] =
           Inr (map (\<lambda>k. map (\<lambda>l. fringe_spec (az ! k) (za ! k) (freq ! l) (e0, e1, e2))
                               [0..<length freq])
                    [0..<length az])"
  using assms
  by (simp add: make_fringe_def bindE_def np_mul_def vstack_def einsum_jk_jl_kl_def outer_def
        ncols_def upt3 fringe_spec_def dot_def Let_def algebra_simps)

lemma make_fringe_vec3:
  assumes "length az = length za"
  shows "make_fringe az za freq (vec3_list b) =
           Inr (map (\<lambda>k. map (\<lambda>l. fringe_spec (az ! k) (za ! k) (freq ! l) b) [0..<length freq])
                    [0..<length az])"
  using make_fringe_closed_form [OF assms] by (cases b) (simp add: vec3_list_def)

lemma fringe_spec_zero: "fringe_spec a z f (0, 0, 0) = 1"
  by (simp add: fringe_spec_def dot_def)

text \<open>
  C4. For arrays of azimuths and zenith angles of one length, frequencies and a baseline
  vector of three components, \<open>make_fringe\<close> returns an array of shape (pixels, frequencies)
  whose element at pixel \<open>k\<close> and frequency \<open>l\<close> is \<open>cos(2 pi u.l) + i sin(2 pi u.l)\<close>, with
  the direction cosines of pixel \<open>k\<close> and the baseline in wavelengths at frequency \<open>l\<close>.
\<close>

theorem make_fringe_formula:
  assumes "length az = length za"
  shows "\<exists>fringe. make_fringe az za freq (vec3_list b) = Inr fringe
           \<and> length fringe = length az
           \<and> (\<forall>k<length az. length (fringe ! k) = length freq
                 \<and> (\<forall>l<length freq. fringe ! k ! l = fringe_spec (az ! k) (za ! k) (freq ! l) b))"
  using make_fringe_vec3 [OF assms, of freq b] by simp

theorem make_fringe_formula_witness:
  "length [pi / 2 :: real] = length [pi / 2 :: real]
     \<and> make_fringe [pi / 2] [pi / 2] [c_ms] (vec3_list (1 / 4, 0, 0)) = Inr [[\<i>]]"
proof -
  have "fringe_spec (pi / 2) (pi / 2) c_ms (1 / 4, 0, 0) = \<i>"
    by (simp add: fringe_spec_def dot_def c_ms_def)
  moreover obtain fringe where
    "make_fringe [pi / 2] [pi / 2] [c_ms] (vec3_list (1 / 4, 0, 0)) = Inr fringe"
    "length fringe = 1" "length (fringe ! 0) = 1"
    "fringe ! 0 ! 0 = fringe_spec (pi / 2) (pi / 2) c_ms (1 / 4, 0, 0)"
    using make_fringe_formula [of "[pi / 2]" "[pi / 2]" "[c_ms]" "(1 / 4, 0, 0)"] by auto
  ultimately show ?thesis
    by (auto simp: length_Suc_conv)
qed

text \<open>
  C6. For arrays of azimuths and zenith angles of one length and any frequencies, the fringe
  of the zero baseline vector is the array of that shape whose every element is 1 + 0i.
\<close>

theorem zero_baseline_fringe:
  assumes "length az = length za"
  shows "make_fringe az za freq (vec3_list (0, 0, 0))
           = Inr (replicate (length az) (replicate (length freq) 1))"
  using make_fringe_vec3 [OF assms, of freq "(0, 0, 0)"]
  by (simp add: fringe_spec_zero map_replicate_const)

theorem zero_baseline_fringe_witness:
  "length [0, 1 :: real] = length [1 / 2, 1 / 3 :: real]
     \<and> make_fringe [0, 1] [1 / 2, 1 / 3] [100, 200] (vec3_list (0, 0, 0)) = Inr [[1, 1], [1, 1]]"
  using zero_baseline_fringe [of "[0, 1]" "[1 / 2, 1 / 3]" "[100, 200]"]
  by (simp add: numeral_2_eq_2)

subsection \<open>The gaussian beam\<close>

lemma beam_val_gaussian_nth:
  "i < length za \<Longrightarrow> beam_val (GaussianBeam sg) az za fq ! i = gaussian_val sg (za ! i)"
  by (simp add: beam_val_def)

text \<open>
  C8 as stated fails for \<open>sigma = 0\<close>, which the constructor accepts: the exponent is
  \<open>-0/0\<close> at zenith angle 0 and the value of the beam there is nan, not 1.
\<close>

theorem gaussian_sigma_zero_nan:
  "analyticbeam_init ''gaussian'' (Some 0) = Inr (GaussianBeam 0)
     \<and> beam_val (GaussianBeam 0) [Some 0] [Some 0] None = [None]"
  by (simp add: analyticbeam_init_def beam_val_def gaussian_val_def)

text \<open>
  C8, amended. A gaussian beam constructed with a sigma \<open>s\<close> other than 0 (in degrees)
  has \<open>sigma = s * pi / 180\<close>. Its value is exactly 1 at every element of zenith angle 0,
  and for zenith angles \<open>0 \<le> x < y\<close> its value at \<open>x\<close> is \<open>exp(-x^2 / (2 sigma^2))\<close> and
  is greater than its value at \<open>y\<close>, in any two calls, whatever their azimuths, their
  other zenith angles and their frequency arguments.
\<close>

theorem gaussian_beam_peak_and_decrease:
  assumes "s \<noteq> 0"
  shows "\<exists>b. analyticbeam_init ''gaussian'' (Some s) = Inr b
     \<and> (\<forall>az za fq i. i < length za \<and> za ! i = Some 0 \<longrightarrow> beam_val b az za fq ! i = Some 1)
     \<and> (\<forall>az1 za1 fq1 az2 za2 fq2 i j x y.
           i < length za1 \<and> j < length za2 \<and> za1 ! i = Some x \<and> za2 ! j = Some y \<and> 0 \<le> x \<and> x < y \<longrightarrow>
          (\<exists>v w. beam_val b az1 za1 fq1 ! i = Some v \<and> beam_val b az2 za2 fq2 ! j = Some w
             \<and> v = exp (- (x\<^sup>2) / (2 * (s * pi / 180)\<^sup>2)) \<and> w < v))"
proof -
  have pos: "0 < 2 * (s * pi / 180)\<^sup>2"
    using assms by simp
  have mono: "exp (- (y\<^sup>2) / (2 * (s * pi / 180)\<^sup>2)) < exp (- (x\<^sup>2) / (2 * (s * pi / 180)\<^sup>2))"
    if "0 \<le> x" "x < y" for x y :: real
  proof -
    have "x\<^sup>2 < y\<^sup>2"
      using that by (simp add: power_strict_mono)
    then have "- (y\<^sup>2) / (2 * (s * pi / 180)\<^sup>2) < - (x\<^sup>2) / (2 * (s * pi / 180)\<^sup>2)"
      using pos by (simp add: divide_strict_right_mono)
    then show ?thesis by simp
  qed
  have init: "analyticbeam_init ''gaussian'' (Some s) = Inr (GaussianBeam (s * pi / 180))"
    by (simp add: analyticbeam_init_def)
  have val: "gaussian_val (s * pi / 180) (Some z) = Some (exp (- (z\<^sup>2) / (2 * (s * pi / 180)\<^sup>2)))" for z
    using assms by (simp add: gaussian_val_def)
  show ?thesis
    unfolding init using mono by (auto simp: beam_val_gaussian_nth val)
qed

theorem gaussian_beam_peak_and_decrease_witness:
  "(20::real) \<noteq> 0 \<and>
    (\<exists>b. analyticbeam_init ''gaussian'' (Some 20) = Inr b
      \<and> beam_val b [Some 0, Some 3] [Some 1, Some 0] None ! 1 = Some 1
      \<and> (\<exists>v w. beam_val b [Some 0] [Some 0] None ! 0 = Some v
            \<and> beam_val b [Some 0, Some 3] [Some 1, Some 0] (Some 7) ! 0 = Some w \<and> w < v))"
proof -
  have h: "(20::real) \<noteq> 0" by simp
  from gaussian_beam_peak_and_decrease [OF h] obtain b where
    b: "analyticbeam_init ''gaussian'' (Some 20) = Inr b"
       "\<forall>az za fq i. i < length za \<and> za ! i = Some 0 \<longrightarrow> beam_val b az za fq ! i = Some 1"
       "\<forall>az1 za1 fq1 az2 za2 fq2 i j x y.
           i < length za1 \<and> j < length za2 \<and> za1 ! i = Some x \<and> za2 ! j = Some y \<and> 0 \<le> x \<and> x < y \<longrightarrow>
          (\<exists>v w. beam_val b az1 za1 fq1 ! i = Some v \<and> beam_val b az2 za2 fq2 ! j = Some w
             \<and> v = exp (- (x\<^sup>2) / (2 * (20 * pi / 180)\<^sup>2)) \<and> w < v)"
    by blast
  have p1: "beam_val b [Some 0, Some 3] [Some 1, Some 0] None ! 1 = Some 1"
    using b(2) [rule_format, of 1 "[Some 1, Some 0]" "[Some 0, Some 3]" None] by simp
  have p2: "\<exists>v w. beam_val b [Some 0] [Some 0] None ! 0 = Some v
            \<and> beam_val b [Some 0, Some 3] [Some 1, Some 0] (Some 7) ! 0 = Some w \<and> w < v"
    using b(3) [rule_format, of 0 "[Some 0]" 0 "[Some 1, Some 0]" 0 1 "[Some 0]" None "[Some 0, Some 3]" "Some 7"]
    by auto
  show ?thesis
    using h b(1) p1 p2 by blast
qed

subsection \<open>The caller's arrays in \<open>get_fringe\<close>\<close>

text \<open>
  C10 as stated fails when the caller passes one array as both \<open>az\<close> and \<open>za\<close>: with
  \<open>degrees=True\<close> the array is multiplied by \<open>pi / 180\<close> twice.
\<close>

theorem get_fringe_aliased_scales_twice:
  "fst (get_fringe \<lparr>enu = (1, 0, 0)\<rparr> ((\<lambda>_. [])(0 := [180])) 0 0 [c_ms] True) 0
      = [180 * (pi / 180) * (pi / 180)]
   \<and> [180 * (pi / 180) * (pi / 180)] \<noteq> [180 * (pi / 180 :: real)]"
proof -
  have "pi \<noteq> 180"
    using pi_less_4 by simp
  then show ?thesis
    by (simp add: get_fringe_def imul_def)
qed

text \<open>
  C10, amended. A call of \<open>get_fringe\<close> with \<open>degrees=True\<close> on two distinct arrays
  leaves each of them multiplied by \<open>pi / 180\<close> in the caller's store and every other array
  as it was; on one array passed as both it leaves that array multiplied by
  \<open>(pi / 180)^2\<close>. Every call with \<open>degrees=False\<close> leaves the store as it was.
\<close>

theorem get_fringe_degrees_mutates:
  "(az \<noteq> za \<longrightarrow> fst (get_fringe bl st az za fq True)
           = st(az := map (\<lambda>x. x * (pi / 180)) (st az), za := map (\<lambda>x. x * (pi / 180)) (st za)))
   \<and> (az = za \<longrightarrow> fst (get_fringe bl st az za fq True)
           = st(az := map (\<lambda>x. x * (pi / 180) * (pi / 180)) (st az)))
   \<and> fst (get_fringe bl st az za fq False) = st"
  by (simp add: get_fringe_def imul_def Let_def fun_eq_iff)

theorem get_fringe_degrees_mutates_witness:
  "fst (get_fringe \<lparr>enu = (1, 0, 0)\<rparr> ((\<lambda>_. [])(0 := [180], 1 := [90])) 0 1 [c_ms] True) 0 = [pi]
   \<and> fst (get_fringe \<lparr>enu = (1, 0, 0)\<rparr> ((\<lambda>_. [])(0 := [180], 1 := [90])) 0 1 [c_ms] True) 1 = [pi / 2]
   \<and> fst (get_fringe \<lparr>enu = (1, 0, 0)\<rparr> ((\<lambda>_. [])(0 := [180], 1 := [90])) 0 1 [c_ms] False) 0 = [180]
   \<and> fst (get_fringe \<lparr>enu = (1, 0, 0)\<rparr> ((\<lambda>_. [])(0 := [180], 1 := [90])) 0 1 [c_ms] False) 1 = [90]"
  using get_fringe_degrees_mutates [of 0 1 "\<lparr>enu = (1, 0, 0)\<rparr>"
        "(\<lambda>_. [])(0 := [180], 1 := [90])" "[c_ms]"]
  by simp

subsection \<open>The local frame and the azimuth\<close>

lemma radians_simps: "radians 90 = pi / 2" "radians 0 = 0"
  by (simp_all add: radians_def)

lemma fmod_pi: "fmod pi (2 * pi) = pi"
proof -
  have "\<lfloor>pi / (2 * pi)\<rfloor> = 0"
    by simp
  then show ?thesis
    by (simp add: fmod_def)
qed

lemma fmod_shift: "fmod (fmod a m + p) m = fmod (a + p) m"
proof (cases "m = 0")
  case True
  then show ?thesis by (simp add: fmod_def)
next
  case False
  define A :: real where "A = of_int \<lfloor>a / m\<rfloor>"
  define B :: real where "B = of_int \<lfloor>(a - m * A + p) / m\<rfloor>"
  define C :: real where "C = of_int \<lfloor>(a + p) / m\<rfloor>"
  have "(a - m * A + p) / m = (a + p) / m - A"
    using False by (simp add: field_simps)
  then have "B = C - A"
    by (simp add: A_def B_def C_def)
  have "a - m * A + p - m * B = a + p - m * (A + B)"
    by (simp add: algebra_simps)
  also have "A + B = C"
    using \<open>B = C - A\<close> by simp
  finally have "a - m * A + p - m * B = a + p - m * C" .
  then show ?thesis
    by (simp add: fmod_def A_def B_def C_def)
qed

lemma azimuth_turned:
  "azimuth (Some dx) (Some dy) = Some (fmod (azimuth_spec dx dy + pi) (2 * pi))"
  by (simp add: azimuth_def azimuth_spec_def fmod_shift)

text \<open>
  C5, as the code computes it. With the centre at (lon 0, lat 0) the local axes are
  \<open>x = (0, 1, 0)\<close>, East, and \<open>y = (0, 0, 1)\<close>, North. For the pixel direction
  \<open>(3/5, 0, 4/5)\<close>, due North of the centre, \<open>atan2(d.x, d.y)\<close> wrapped into
  \<open>[0, 2 pi)\<close> is 0, and \<open>calc_azza\<close> returns the azimuth \<open>pi\<close>.
\<close>

theorem azimuth_of_north_is_pi:
  "calc_azza (one_pixel (3 / 5, 0, 4 / 5)) (Some 120) 1 (0, 0)
     = Inr ([Some (arccos (3 / 5))], [Some pi], [0])
   \<and> local_x (ang2vec 0 0) (radians (90 - 0)) = Some (0, 1, 0)
   \<and> local_y (ang2vec 0 0) (Some (0, 1, 0)) = Some (0, 0, 1)
   \<and> azimuth (Some (dot (3 / 5, 0, 4 / 5) (0, 1, 0))) (Some (dot (3 / 5, 0, 4 / 5) (0, 0, 1))) = Some pi
   \<and> azimuth_spec (dot (3 / 5, 0, 4 / 5) (0, 1, 0)) (dot (3 / 5, 0, 4 / 5) (0, 0, 1)) = 0"
  by (simp add: calc_azza_def one_pixel_def ang2vec_def radians_simps local_x_def local_y_def
      cross_def dot_def np_arccos_def azimuth_def azimuth_spec_def arctan2_def fmod_pi Let_def)
    (simp add: fmod_def)

text \<open>
  C9 as stated fails at the pole: for the centre (lon 0, lat 90) the divisor
  \<open>sin(colat)\<close> is 0, the local x axis is not a vector of numbers, and the azimuth of the
  pixel in the disc is nan.
\<close>

theorem pole_frame_undefined:
  "sin (radians (90 - 90)) = 0
   \<and> local_x (ang2vec 0 90) (radians (90 - 90)) = None
   \<and> calc_azza (one_pixel (3 / 5, 0, 4 / 5)) (Some 120) 1 (0, 90)
        = Inr ([Some (arccos (4 / 5))], [None], [0])"
  by (simp add: calc_azza_def one_pixel_def ang2vec_def radians_simps local_x_def local_y_def
      cross_def dot_def np_arccos_def azimuth_def Let_def)

text \<open>
  C9, amended. For every pointing centre whose declination lies strictly between -90 and
  90 degrees the divisor \<open>sin(colat)\<close> is positive and the frame is well defined: the local
  x axis is the unit vector \<open>(-sin(ra), cos(ra), 0)\<close>, and x, y and the pointing vector are
  three orthogonal unit vectors.
\<close>

theorem tangent_frame_off_pole:
  assumes "- 90 < dec" "dec < 90"
  shows "0 < sin (radians (90 - dec))
     \<and> (\<exists>x y. local_x (ang2vec ra dec) (radians (90 - dec)) = Some x
           \<and> local_y (ang2vec ra dec) (local_x (ang2vec ra dec) (radians (90 - dec))) = Some y
           \<and> x = (- sin (radians ra), cos (radians ra), 0)
           \<and> dot x x = 1 \<and> dot y y = 1 \<and> dot (ang2vec ra dec) (ang2vec ra dec) = 1
           \<and> dot x y = 0 \<and> dot x (ang2vec ra dec) = 0 \<and> dot y (ang2vec ra dec) = 0)"
proof -
  have th: "pi / 2 - radians dec = radians (90 - dec)"
    by (simp add: radians_def field_simps)
  define s where "s = sin (radians (90 - dec))"
  define c where "c = cos (radians (90 - dec))"
  define p where "p = sin (radians ra)"
  define q where "q = cos (radians ra)"
  have "0 < (90 - dec) * pi"
    using assms by simp
  then have lo: "0 < radians (90 - dec)"
    by (simp add: radians_def)
  have "(90 - dec) * pi < 180 * pi"
    using assms by (intro mult_strict_right_mono) simp_all
  then have hi: "radians (90 - dec) < pi"
    by (simp add: radians_def)
  have spos: "0 < s"
    unfolding s_def using lo hi by (rule sin_gt_zero)
  have pq: "p * p + q * q = 1" "s * s + c * c = 1"
    by (simp_all add: p_def q_def s_def c_def power2_eq_square [symmetric])
  have cv: "ang2vec ra dec = (s * q, s * p, c)"
    by (simp add: ang2vec_def Let_def th s_def c_def p_def q_def)
  have x: "local_x (ang2vec ra dec) (radians (90 - dec)) = Some (- p, q, 0)"
    using spos by (simp add: cv local_x_def s_def [symmetric])
  have y: "local_y (ang2vec ra dec) (Some (- p, q, 0)) = Some (- (c * q), - (c * p), s)"
  proof -
    have "s * (q * q) + s * (p * p) = s * (p * p + q * q)"
      by (simp add: algebra_simps)
    then show ?thesis
      by (simp add: cv local_y_def cross_def pq(1))
  qed
  have d1: "dot (- p, q, 0) (- p, q, 0) = 1"
    using pq(1) by (simp add: dot_def)
  have "c * q * (c * q) + c * p * (c * p) + s * s = c * c * (p * p + q * q) + s * s"
    by (simp add: algebra_simps)
  then have d2: "dot (- (c * q), - (c * p), s) (- (c * q), - (c * p), s) = 1"
    using pq by (simp add: dot_def add.commute)
  have "s * q * (s * q) + s * p * (s * p) + c * c = s * s * (p * p + q * q) + c * c"
    by (simp add: algebra_simps)
  then have d3: "dot (ang2vec ra dec) (ang2vec ra dec) = 1"
    using pq by (simp add: cv dot_def)
  have d4: "dot (- p, q, 0) (- (c * q), - (c * p), s) = 0"
    by (simp add: dot_def)
  have d5: "dot (- p, q, 0) (ang2vec ra dec) = 0"
    by (simp add: cv dot_def)
  have "s * c - c * s * (p * p + q * q) = 0"
    by (simp add: pq(1))
  then have d6: "dot (- (c * q), - (c * p), s) (ang2vec ra dec) = 0"
    by (simp add: cv dot_def algebra_simps)
  show ?thesis
    using spos x y d1 d2 d3 d4 d5 d6 unfolding p_def q_def s_def by simp
qed

theorem tangent_frame_off_pole_witness:
  "- 90 < (0::real) \<and> (0::real) < 90
     \<and> local_x (ang2vec 0 0) (radians (90 - 0)) = Some (0, 1, 0)
     \<and> local_y (ang2vec 0 0) (local_x (ang2vec 0 0) (radians (90 - 0))) = Some (0, 0, 1)"
proof -
  have h: "- 90 < (0::real)" "(0::real) < 90" by simp_all
  from tangent_frame_off_pole [OF h, of 0] obtain x y where
    "local_x (ang2vec 0 0) (radians (90 - 0)) = Some x"
    "local_y (ang2vec 0 0) (local_x (ang2vec 0 0) (radians (90 - 0))) = Some y"
    "x = (- sin (radians 0), cos (radians 0), 0)"
    by blast
  then show ?thesis
    by (simp add: radians_simps local_y_def cross_def ang2vec_def)
qed

subsection \<open>The queue, the sections and the sort\<close>

lemma mset_concat_update_tl:
  assumes "w < length outs" "outs ! w \<noteq> []"
  shows "add_mset (hd (outs ! w)) (mset (concat (outs[w := tl (outs ! w)]))) = mset (concat outs)"
  using assms
proof (induction outs arbitrary: w)
  case Nil
  then show ?case by simp
next
  case (Cons a outs)
  show ?case
  proof (cases w)
    case 0
    with Cons.prems show ?thesis
      by (cases a) auto
  next
    case (Suc v)
    with Cons.prems Cons.IH [of v] show ?thesis
      by (simp flip: Cons.IH [of v])
  qed
qed

lemma mset_interleave: "mset (interleave sched outs) = mset (concat outs)"
proof (induction sched arbitrary: outs)
  case Nil
  then show ?case by simp
next
  case (Cons w ws)
  then show ?case
    by (simp add: mset_concat_update_tl)
qed

lemma interleaving_has_schedule:
  assumes "interleaving outs q"
  shows "\<exists>sched. interleave sched outs = q"
  using assms
proof (induction rule: interleaving.induct)
  case (all_put outs)
  then have "concat outs = []"
    by simp
  then have "interleave [] outs = []"
    by simp
  then show ?case by blast
next
  case (next_put w outs x rest q)
  then obtain sched where "interleave sched (outs[w := rest]) = q"
    by blast
  then have "interleave (w # sched) outs = x # q"
    using next_put.hyps(1,2) by simp
  then show ?case by blast
qed

lemma first_nonempty:
  assumes "concat outs \<noteq> []"
  shows "\<exists>pre out post. outs = pre @ out # post \<and> (\<forall>e \<in> set pre. e = []) \<and> out \<noteq> []"
  using assms
proof (induction outs)
  case Nil
  then show ?case by simp
next
  case (Cons a outs)
  show ?case
  proof (cases "a = []")
    case True
    then have "concat outs \<noteq> []"
      using Cons.prems by simp
    then obtain pre out post where "outs = pre @ out # post" "\<forall>e \<in> set pre. e = []" "out \<noteq> []"
      using Cons.IH by blast
    then have "a # outs = (a # pre) @ out # post \<and> (\<forall>e \<in> set (a # pre). e = []) \<and> out \<noteq> []"
      using True by simp
    then show ?thesis by blast
  next
    case False
    then have "a # outs = [] @ a # outs \<and> (\<forall>e \<in> set []. e = []) \<and> a \<noteq> []"
      by simp
    then show ?thesis by blast
  qed
qed

lemma concat_is_interleaving: "interleaving outs (concat outs)"
proof (induction "length (concat outs)" arbitrary: outs)
  case 0
  then have e: "\<forall>out \<in> set outs. out = []" "concat outs = []"
    by auto
  show ?case
    unfolding e(2) using e(1) by (rule interleaving.all_put)
next
  case (Suc n)
  have "concat outs \<noteq> []"
    using Suc.hyps(2) by (metis length_0_conv nat.distinct(1))
  then obtain pre out post where sp: "outs = pre @ out # post" "\<forall>e \<in> set pre. e = []" "out \<noteq> []"
    using first_nonempty by blast
  then obtain x rest where out: "out = x # rest"
    by (cases out) auto
  have w: "length pre < length outs" "outs ! length pre = x # rest"
    "outs[length pre := rest] = pre @ rest # post"
    using sp(1) out by simp_all
  have cp: "concat pre = []"
    using sp(2) by simp
  have c: "concat outs = x # concat (outs[length pre := rest])"
    unfolding w(3) unfolding sp(1) out by (simp add: cp)
  then have "n = length (concat (outs[length pre := rest]))"
    using Suc.hyps(2) by simp
  then have "interleaving (outs[length pre := rest]) (concat (outs[length pre := rest]))"
    by (rule Suc.hyps(1))
  with w(1,2) show ?case
    unfolding c by (rule interleaving.next_put)
qed

lemma interleave_is_interleaving: "interleaving outs (interleave sched outs)"
proof (induction sched arbitrary: outs)
  case Nil
  then show ?case by (simp add: concat_is_interleaving)
next
  case (Cons w sched)
  show ?case
  proof (cases "w < length outs \<and> outs ! w \<noteq> []")
    case True
    then obtain x rest where xr: "outs ! w = x # rest"
      by (cases "outs ! w") auto
    have "interleaving (outs[w := rest]) (interleave sched (outs[w := rest]))"
      by (rule Cons)
    then have "interleaving outs (x # interleave sched (outs[w := rest]))"
      using True xr by (intro interleaving.next_put [of w outs x rest]) simp_all
    then show ?thesis
      using True xr by simp
  next
    case False
    then show ?thesis
      using Cons [of outs] by auto
  qed
qed

lemma length_chop: "length (chop ns xs) = length ns"
  by (induction ns arbitrary: xs) auto

lemma concat_chop: "concat (chop ns xs) = take (sum_list ns) xs"
  by (induction ns arbitrary: xs) (auto simp: take_add)

lemma chop_zip: "chop ns (zip xs ys) = map2 zip (chop ns xs) (chop ns ys)"
  by (induction ns arbitrary: xs ys) (auto simp: take_zip drop_zip)

lemma chop_lengths: "map length (chop ns xs) = map length (chop ns ys)" if "length xs = length ys"
  using that by (induction ns arbitrary: xs ys) auto

lemma sum_section_sizes: "0 < n \<Longrightarrow> sum_list (section_sizes m n) = m"
proof -
  assume n: "0 < n"
  have "m mod n \<le> n" using n by simp
  then have "m mod n * (m div n + 1) + (n - m mod n) * (m div n) = m mod n + n * (m div n)"
    by (simp add: algebra_simps flip: add_mult_distrib)
  then show ?thesis
    by (simp add: section_sizes_def Let_def sum_list_replicate)
qed

lemma length_section_sizes: "0 < n \<Longrightarrow> length (section_sizes m n) = n"
  by (simp add: section_sizes_def Let_def)

lemma insort_key_map:
  "map f (insort_key (\<lambda>x. g (f x)) x ys) = insort_key g (f x) (map f ys)"
  by (induction ys) auto

lemma sort_key_map: "map f (sort_key (\<lambda>x. g (f x)) xs) = sort_key g (map f xs)"
  by (induction xs) (auto simp: insort_key_map)

lemma insort_key_cong_set:
  "f x = g x \<Longrightarrow> (\<And>y. y \<in> set ys \<Longrightarrow> f y = g y) \<Longrightarrow> insort_key f x ys = insort_key g x ys"
  by (induction ys) auto

lemma sort_key_cong_set:
  "(\<And>x. x \<in> set xs \<Longrightarrow> f x = g x) \<Longrightarrow> sort_key f xs = sort_key g xs"
proof (induction xs)
  case Nil
  then show ?case by simp
next
  case (Cons a xs)
  then have "sort_key f xs = sort_key g xs" by simp
  moreover have "insort_key f a (sort_key g xs) = insort_key g a (sort_key g xs)"
    by (rule insort_key_cong_set) (use Cons.prems in auto)
  ultimately show ?case by simp
qed

lemma lexsort_rows:
  "map (\<lambda>i. q ! i) (lexsort (map (\<lambda>(ti, bi, varr). ti) q) (map (\<lambda>(ti, bi, varr). bi) q))
     = sort_key row_key q"
proof -
  have "sort_key (\<lambda>i. (map (\<lambda>(ti, bi, varr). bi) q ! i, map (\<lambda>(ti, bi, varr). ti) q ! i)) [0..<length q]
          = sort_key (\<lambda>i. row_key (q ! i)) [0..<length q]"
    by (rule sort_key_cong_set) (auto simp: row_key_def split: prod.splits)
  then show ?thesis
    by (simp add: lexsort_def sort_key_map map_nth)
qed

lemma lexsort_column:
  "map (\<lambda>i. map h q ! i) (lexsort (map (\<lambda>(ti, bi, varr). ti) q) (map (\<lambda>(ti, bi, varr). bi) q))
     = map h (sort_key row_key q)"
proof -
  let ?srt = "lexsort (map (\<lambda>(ti, bi, varr). ti) q) (map (\<lambda>(ti, bi, varr). bi) q)"
  have "\<forall>i \<in> set ?srt. i < length q"
    by (simp add: lexsort_def)
  then have "map (\<lambda>i. map h q ! i) ?srt = map h (map (\<lambda>i. q ! i) ?srt)"
    by simp
  then show ?thesis
    by (simp only: lexsort_rows)
qed

lemma collect_sorted:
  "collect q = (map (\<lambda>(ti, bi, varr). ti) (sort_key row_key q),
                map (\<lambda>(ti, bi, varr). bi) (sort_key row_key q),
                map (\<lambda>(ti, bi, varr). varr) (sort_key row_key q))"
  by (simp add: collect_def Let_def lexsort_column)

lemma sorted_product:
  fixes xs :: "nat list" and ys :: "nat list"
  assumes "sorted xs" "distinct xs" "sorted ys"
  shows "sorted (List.product xs ys)"
  using assms
proof (induction xs)
  case Nil
  then show ?case by simp
next
  case (Cons x xs)
  have "sorted (map (Pair x) ys)"
    using Cons.prems(3) by (induction ys) (auto simp: less_eq_prod_def)
  moreover have "sorted (List.product xs ys)"
    using Cons by simp
  moreover have "\<forall>a \<in> set (map (Pair x) ys). \<forall>b \<in> set (List.product xs ys). a \<le> b"
    using Cons.prems by (auto simp: less_eq_prod_def)
  ultimately show ?case
    by (simp add: sorted_append)
qed

lemma sort_rows_canonical:
  fixes V :: "nat \<Rightarrow> nat \<Rightarrow> complex list list option"
  assumes "mset q = mset (map (\<lambda>(b, t). (t, b, V t b)) ks)" "sorted ks"
  shows "sort_key row_key q = map (\<lambda>(b, t). (t, b, V t b)) ks"
proof (rule sort_key_inj_key_eq)
  show "mset q = mset (map (\<lambda>(b, t). (t, b, V t b)) ks)"
    by (rule assms(1))
  have "set q = set (map (\<lambda>(b, t). (t, b, V t b)) ks)"
    using assms(1) by (rule mset_eq_setD)
  then show "inj_on row_key (set q)"
    by (auto simp: inj_on_def row_key_def)
  have "map row_key (map (\<lambda>(b, t). (t, b, V t b)) ks) = ks"
    by (induction ks) (auto simp: row_key_def)
  then show "sorted (map row_key (map (\<lambda>(b, t). (t, b, V t b)) ks))"
    using assms(2) by simp
qed

subsection \<open>The rows of one worker\<close>

lemma those_map_Some: "those xs = Some ys \<Longrightarrow> xs = map Some ys"
  by (induction xs arbitrary: ys) (auto split: option.splits)

lemma those_length: "those xs = Some ys \<Longrightarrow> length ys = length xs"
  by (drule those_map_Some) simp

lemma fringe_cube_of_finite:
  assumes "those az_arr = Some az" "those za_arr = Some za" "length az_arr = length za_arr"
  shows "fringe_cube_of bl az_arr za_arr fq =
           Inr (Some (map (\<lambda>k. map (\<lambda>l. fringe_spec (az ! k) (za ! k) (fq ! l) (enu bl))
                                     [0..<length fq])
                          [0..<length az]))"
proof -
  have "length az = length za"
    using assms by (simp add: those_length)
  then show ?thesis
    using assms(1,2) by (simp add: fringe_cube_of_def get_fringe_def make_fringe_vec3)
qed

lemma fringe_cube_of_total:
  assumes "length az_arr = length za_arr"
  shows "\<exists>fc. fringe_cube_of bl az_arr za_arr fq = Inr fc"
proof (cases "those az_arr")
  case None
  then show ?thesis by (simp add: fringe_cube_of_def)
next
  case az: (Some az)
  show ?thesis
  proof (cases "those za_arr")
    case None
    then show ?thesis by (simp add: fringe_cube_of_def az)
  next
    case (Some za)
    then show ?thesis
      using fringe_cube_of_finite [OF az Some assms] by simp
  qed
qed

lemma calc_azza_lengths:
  assumes "calc_azza hp fv Nside c = Inr (za_arr, az_arr, pix)"
  shows "length za_arr = length pix" "length az_arr = length pix"
  using assms by (auto simp: calc_azza_def Let_def split: option.splits)

lemma calc_azza_fov:
  "\<exists>za_arr az_arr pix. calc_azza hp (Some fv) Nside c = Inr (za_arr, az_arr, pix)"
  by (simp add: calc_azza_def Let_def)

lemma baseline_loop_rows:
  assumes "length az_arr = length za_arr"
  shows "baseline_loop obs sh (za_arr, az_arr, pix) beam_one tind bls =
           (map (\<lambda>(bi, bl). (tind, bi,
                   vis_of sh pix beam_one (Nfreqs obs)
                     (case fringe_cube_of bl az_arr za_arr (freqs obs) of
                        Inl e \<Rightarrow> None | Inr fc \<Rightarrow> fc))) bls, None)"
proof (induction bls)
  case Nil
  then show ?case by simp
next
  case (Cons p bls)
  obtain bi bl where p: "p = (bi, bl)" by (cases p)
  obtain fc where "fringe_cube_of bl az_arr za_arr (freqs obs) = Inr fc"
    using fringe_cube_of_total [OF assms] by blast
  then show ?case
    using Cons.IH by (simp add: p)
qed

lemma vis_loop_rows:
  assumes "fov obs = Some fv"
  shows "vis_loop hp obs sh Nside tinds cs =
           (concat (map (\<lambda>(cnt, c). map (\<lambda>(bi, bl). (tinds ! cnt, bi, snapshot_vis hp obs sh Nside c bl))
                                          (enumerate 0 (array obs))) cs), None)"
proof (induction cs)
  case Nil
  then show ?case by simp
next
  case (Cons p cs)
  obtain cnt c where p: "p = (cnt, c)" by (cases p)
  obtain za_arr az_arr pix where cz: "calc_azza hp (fov obs) Nside c = Inr (za_arr, az_arr, pix)"
    using calc_azza_fov [of hp fv Nside c] assms by auto
  have len: "length az_arr = length za_arr"
    using calc_azza_lengths [OF cz] by simp
  have sv: "snapshot_vis hp obs sh Nside c bl =
              vis_of sh pix (beam_val (beam obs) az_arr za_arr None) (Nfreqs obs)
                (case fringe_cube_of bl az_arr za_arr (freqs obs) of Inl e \<Rightarrow> None | Inr fc \<Rightarrow> fc)" for bl
    using fringe_cube_of_total [OF len, of bl "freqs obs"]
    by (auto simp: snapshot_vis_def cz)
  show ?case
    using Cons.IH by (simp add: p cz baseline_loop_rows [OF len] sv Let_def)
qed

lemma vis_loop_none:
  assumes "fov obs = None" 
  shows "fst (vis_loop hp obs sh Nside tinds cs) = []"
  using assms by (cases cs) (auto simp: calc_azza_def)

lemma vis_calc_none:
  assumes "fov obs = None" 
  shows "fst (vis_calc hp obs sh Nside pcents tinds) = []"
  using assms by (simp add: vis_calc_def vis_loop_none)

lemma vis_calc_rows:
  assumes "fov obs = Some fv" "length pcents = length tinds"
  shows "fst (vis_calc hp obs sh Nside pcents tinds) =
           concat (map (\<lambda>(c, t). map (\<lambda>(bi, bl). (t, bi, snapshot_vis hp obs sh Nside c bl))
                                          (enumerate 0 (array obs))) (zip pcents tinds))"
proof -
  have "map (\<lambda>(cnt, c). f (tinds ! cnt) c) (enumerate 0 pcents) = map (\<lambda>(c, t). f t c) (zip pcents tinds)"
    for f :: "nat \<Rightarrow> real \<times> real \<Rightarrow> row list"
    using assms(2) by (intro nth_equalityI) (auto simp: nth_enumerate_eq)
  from this [of "\<lambda>t c. map (\<lambda>(bi, bl). (t, bi, snapshot_vis hp obs sh Nside c bl)) (enumerate 0 (array obs))"]
  show ?thesis
    by (simp add: vis_calc_def vis_loop_rows [OF assms(1)])
qed

subsection \<open>The rows of all workers\<close>

lemma concat_map_concat: "concat (map (\<lambda>xs. concat (map g xs)) xss) = concat (map g (concat xss))"
  by (induction xss) auto

lemma map_product_rows:
  "map (\<lambda>(b, t). f t b) (List.product bs ts) = concat (map (\<lambda>b. map (\<lambda>t. f t b) ts) bs)"
  by (induction bs) (auto simp: comp_def)

lemma mset_concat_swap_step:
  "mset (concat (map (\<lambda>b. f t0 b # map (\<lambda>t. f t b) ts) bs))
     = image_mset (f t0) (mset bs) + mset (concat (map (\<lambda>b. map (\<lambda>t. f t b) ts) bs))"
  by (induction bs) auto

lemma mset_concat_swap:
  "mset (concat (map (\<lambda>t. map (\<lambda>b. f t b) bs) ts)) = mset (concat (map (\<lambda>b. map (\<lambda>t. f t b) ts) bs))"
proof (induction ts)
  case Nil
  show ?case by (induction bs) auto
next
  case (Cons t0 ts)
  then show ?case
    by (simp add: mset_concat_swap_step)
qed

lemma split_sections:
  assumes "0 < n" "length xs = length ys"
  shows "concat (map (\<lambda>p. concat (map g (zip (chop (section_sizes (length xs) n) xs ! p)
                                                (chop (section_sizes (length xs) n) ys ! p)))) [0..<n])
           = concat (map g (zip xs ys))"
proof -
  let ?ss = "section_sizes (length xs) n"
  have len: "length (chop ?ss xs) = n" "length (chop ?ss ys) = n"
    using assms(1) by (simp_all add: length_chop length_section_sizes)
  have "map (\<lambda>p. concat (map g (zip (chop ?ss xs ! p) (chop ?ss ys ! p)))) [0..<n]
          = map (\<lambda>zs. concat (map g zs)) (map2 zip (chop ?ss xs) (chop ?ss ys))"
    using len by (intro nth_equalityI) auto
  also have "\<dots> = map (\<lambda>zs. concat (map g zs)) (chop ?ss (zip xs ys))"
    by (simp add: chop_zip)
  finally have "concat (map (\<lambda>p. concat (map g (zip (chop ?ss xs ! p) (chop ?ss ys ! p)))) [0..<n])
                  = concat (map g (concat (chop ?ss (zip xs ys))))"
    by (simp add: concat_map_concat)
  also have "concat (chop ?ss (zip xs ys)) = zip xs ys"
    using assms by (simp add: concat_chop sum_section_sizes)
  finally show ?thesis .
qed

lemma section_lengths:
  assumes "0 < n" "length xs = length ys" "p < n"
  shows "length (chop (section_sizes (length xs) n) xs ! p)
           = length (chop (section_sizes (length xs) n) ys ! p)"
proof -
  let ?ss = "section_sizes (length xs) n"
  have "map length (chop ?ss xs) ! p = map length (chop ?ss ys) ! p"
    using chop_lengths [OF assms(2)] by simp
  then show ?thesis
    using assms by (simp add: length_chop length_section_sizes)
qed

lemma run_workers_mset:
  assumes "fov obs = Some fv" "0 < Nprocs"
  shows "\<exists>queue. run_workers hp obs sh Nside Nprocs sched = Inr queue
           \<and> mset queue = mset (map (\<lambda>(b, t). (t, b, snapshot_vis hp obs sh Nside
                                                    (pointing_centers obs ! t) (array obs ! b)))
                                    (canonical_pairs obs))"
proof -
  let ?cs = "pointing_centers obs"
  let ?T = "length ?cs"
  let ?ss = "section_sizes ?T Nprocs"
  let ?g = "\<lambda>(c, t). map (\<lambda>(bi, bl). (t, bi, snapshot_vis hp obs sh Nside c bl)) (enumerate 0 (array obs))"
  let ?V = "\<lambda>t b. (t, b, snapshot_vis hp obs sh Nside (?cs ! t) (array obs ! b))"
  let ?puts = "map (\<lambda>p. fst (vis_calc hp obs sh Nside (chop ?ss ?cs ! p) (chop ?ss [0..<?T] ! p))) [0..<Nprocs]"
  have rw: "run_workers hp obs sh Nside Nprocs sched = Inr (interleave sched ?puts)"
    using assms(2) by (simp add: run_workers_def array_split_def bindE_def Let_def)
  have "?puts = map (\<lambda>p. concat (map ?g (zip (chop ?ss ?cs ! p) (chop ?ss [0..<?T] ! p)))) [0..<Nprocs]"
  proof (rule map_cong [OF refl])
    fix p assume "p \<in> set [0..<Nprocs]"
    then have "length (chop ?ss ?cs ! p) = length (chop ?ss [0..<?T] ! p)"
      using section_lengths [of Nprocs ?cs "[0..<?T]" p] assms(2) by simp
    then show "fst (vis_calc hp obs sh Nside (chop ?ss ?cs ! p) (chop ?ss [0..<?T] ! p))
                 = concat (map ?g (zip (chop ?ss ?cs ! p) (chop ?ss [0..<?T] ! p)))"
      by (rule vis_calc_rows [OF assms(1)])
  qed
  then have "concat ?puts
      = concat (map (\<lambda>p. concat (map ?g (zip (chop ?ss ?cs ! p) (chop ?ss [0..<?T] ! p)))) [0..<Nprocs])"
    by (rule arg_cong)
  also have "\<dots> = concat (map ?g (zip ?cs [0..<?T]))"
    by (rule split_sections) (use assms(2) in auto)
  also have "zip ?cs [0..<?T] = map (\<lambda>t. (?cs ! t, t)) [0..<?T]"
    by (intro nth_equalityI) auto
  also have "enumerate 0 (array obs) = map (\<lambda>b. (b, array obs ! b)) [0..<length (array obs)]"
    by (intro nth_equalityI) (auto simp: nth_enumerate_eq)
  finally have "concat ?puts = concat (map (\<lambda>t. map (\<lambda>b. ?V t b) [0..<length (array obs)]) [0..<?T])"
    by (simp add: comp_def)
  then have "mset (concat ?puts)
      = mset (concat (map (\<lambda>t. map (\<lambda>b. ?V t b) [0..<length (array obs)]) [0..<?T]))"
    by (rule arg_cong)
  also have "\<dots> = mset (concat (map (\<lambda>b. map (\<lambda>t. ?V t b) [0..<?T]) [0..<length (array obs)]))"
    by (rule mset_concat_swap)
  also have "\<dots> = mset (map (\<lambda>(b, t). ?V t b) (canonical_pairs obs))"
    by (simp only: map_product_rows canonical_pairs_def)
  finally have "mset (concat ?puts) = mset (map (\<lambda>(b, t). ?V t b) (canonical_pairs obs))" .
  then show ?thesis
    using rw by (simp add: mset_interleave)
qed

subsection \<open>The result of \<open>make_visibilities\<close>\<close>

lemma canonical_pairs_sorted: "sorted (canonical_pairs obs)"
  unfolding canonical_pairs_def by (rule sorted_product) simp_all

lemma canonical_pairs_facts:
  "length (canonical_pairs obs) = length (array obs) * length (pointing_centers obs)"
  "distinct (canonical_pairs obs)"
  "set (canonical_pairs obs) = {0..<length (array obs)} \<times> {0..<length (pointing_centers obs)}"
  by (simp_all add: canonical_pairs_def distinct_product)

lemma canonical_pairs_nonempty:
  assumes "array obs \<noteq> []" "pointing_centers obs \<noteq> []"
  shows "canonical_pairs obs \<noteq> []"
proof -
  have "length (canonical_pairs obs) \<noteq> 0"
    using assms by (simp add: canonical_pairs_facts(1))
  then show ?thesis by simp
qed

lemma collect_canonical:
  fixes V :: "nat \<Rightarrow> nat \<Rightarrow> complex list list option"
  assumes "mset queue = mset (map (\<lambda>(b, t). (t, b, V t b)) ks)" "sorted ks"
  shows "collect queue = (map snd ks, map fst ks, map (\<lambda>(b, t). V t b) ks)"
proof -
  have srt: "sort_key row_key queue = map (\<lambda>(b, t). (t, b, V t b)) ks"
    using assms by (rule sort_rows_canonical)
  have "map (\<lambda>(ti, bi, varr). ti) (map (\<lambda>(b, t). (t, b, V t b)) ks) = map snd ks"
    "map (\<lambda>(ti, bi, varr). bi) (map (\<lambda>(b, t). (t, b, V t b)) ks) = map fst ks"
    "map (\<lambda>(ti, bi, varr). varr) (map (\<lambda>(b, t). (t, b, V t b)) ks) = map (\<lambda>(b, t). V t b) ks"
    by (induction ks) auto
  then show ?thesis
    unfolding collect_sorted srt by simp
qed

lemma make_visibilities_queue:
  assumes "nfreqs sh = Nfreqs obs" "npix2nside (npix sh) = Inr Nside" "npix sh \<noteq> 0"
    "run_workers hp obs sh Nside Nprocs sched = Inr queue" "queue \<noteq> []"
    "collect queue = (tis, bis, vs)" "\<forall>t \<in> set tis. t < length (times_jd obs)"
  shows "make_visibilities hp obs sh Nprocs sched =
           Returns (map (div_conv (map (\<lambda>f. jy2Tstr f (4 * pi / real (npix sh))) (freqs obs))) vs,
                    map (\<lambda>t. times_jd obs ! t) tis, bis)"
proof -
  have "\<not> (\<exists>t \<in> set tis. length (times_jd obs) \<le> t)"
    using assms(7) by (auto simp: not_le)
  then show ?thesis
    unfolding make_visibilities_def Let_def using assms(1-6) by simp
qed

lemma make_visibilities_canonical:
  assumes "fov obs = Some fv" "nfreqs sh = Nfreqs obs" "npix2nside (npix sh) = Inr Nside"
    "npix sh \<noteq> 0" "0 < Nprocs" "array obs \<noteq> []" "pointing_centers obs \<noteq> []"
    "length (pointing_centers obs) \<le> length (times_jd obs)"
  shows "make_visibilities hp obs sh Nprocs sched =
           Returns (map (div_conv (map (\<lambda>f. jy2Tstr f (4 * pi / real (npix sh))) (freqs obs)))
                        (map (\<lambda>(b, t). snapshot_vis hp obs sh Nside (pointing_centers obs ! t) (array obs ! b))
                             (canonical_pairs obs)),
                    map (\<lambda>t. times_jd obs ! t) (map snd (canonical_pairs obs)),
                    map fst (canonical_pairs obs))"
proof -
  let ?V = "\<lambda>t b. snapshot_vis hp obs sh Nside (pointing_centers obs ! t) (array obs ! b)"
  obtain queue where q: "run_workers hp obs sh Nside Nprocs sched = Inr queue"
    and m: "mset queue = mset (map (\<lambda>(b, t). (t, b, ?V t b)) (canonical_pairs obs))"
    using run_workers_mset [OF assms(1) assms(5), of hp sh Nside sched] by blast
  have col: "collect queue = (map snd (canonical_pairs obs), map fst (canonical_pairs obs),
                map (\<lambda>(b, t). ?V t b) (canonical_pairs obs))"
    using m canonical_pairs_sorted by (rule collect_canonical)
  have "size (mset queue) \<noteq> 0"
    unfolding m using canonical_pairs_nonempty [OF assms(6,7)] by simp
  then have ne: "queue \<noteq> []"
    by auto
  have inb: "\<forall>t \<in> set (map snd (canonical_pairs obs)). t < length (times_jd obs)"
    using assms(8) by (auto simp: canonical_pairs_facts(3))
  show ?thesis
    using assms(2,3,4) q ne col inb by (rule make_visibilities_queue)
qed

lemma npix2nside_valid: "npix2nside (12 * n\<^sup>2) = Inr n"
proof -
  have le: "n \<le> 12 * n\<^sup>2"
    by (cases "n = 0") (simp_all add: power2_eq_square)
  have "\<exists>i<length [0..<Suc (12 * n\<^sup>2)].
          12 * ([0..<Suc (12 * n\<^sup>2)] ! i)\<^sup>2 = 12 * n\<^sup>2 \<and> n = [0..<Suc (12 * n\<^sup>2)] ! i
          \<and> (\<forall>j<i. \<not> 12 * ([0..<Suc (12 * n\<^sup>2)] ! j)\<^sup>2 = 12 * n\<^sup>2)"
  proof (intro exI [of _ n] conjI allI impI)
    show "n < length [0..<Suc (12 * n\<^sup>2)]"
      using le by simp
    show "12 * ([0..<Suc (12 * n\<^sup>2)] ! n)\<^sup>2 = 12 * n\<^sup>2" "n = [0..<Suc (12 * n\<^sup>2)] ! n"
      using le by (simp_all add: nth_upt del: upt_Suc)
    fix j assume j: "j < n"
    then have "[0..<Suc (12 * n\<^sup>2)] ! j = j"
      using le by (simp add: nth_upt del: upt_Suc)
    moreover have "j\<^sup>2 \<noteq> n\<^sup>2"
      using j by simp
    ultimately show "\<not> 12 * ([0..<Suc (12 * n\<^sup>2)] ! j)\<^sup>2 = 12 * n\<^sup>2"
      by (simp only: mult_cancel_left) simp
  qed
  then have "find (\<lambda>k. 12 * k\<^sup>2 = 12 * n\<^sup>2) [0..<Suc (12 * n\<^sup>2)] = Some n"
    unfolding find_Some_iff .
  then show ?thesis
    by (simp add: npix2nside_def del: upt_Suc)
qed

lemma npix2nside_invalid:
  assumes "\<forall>n. Npix \<noteq> 12 * n\<^sup>2"
  shows "npix2nside Npix = Inl ValueError"
proof -
  have "\<not> (\<exists>k. k \<in> set [0..<Suc Npix] \<and> 12 * k\<^sup>2 = Npix)"
    using assms by auto
  then have "find (\<lambda>k. 12 * k\<^sup>2 = Npix) [0..<Suc Npix] = None"
    unfolding find_None_iff .
  then show ?thesis
    by (simp add: npix2nside_def del: upt_Suc)
qed

lemma interleave_empty: "interleave sched (map (\<lambda>p. []) ps) = []"
proof -
  have "mset (interleave sched (map (\<lambda>p. []) ps)) = {#}"
    unfolding mset_interleave by (induction ps) auto
  then show ?thesis by simp
qed

lemma run_workers_unset_fov:
  assumes "fov obs = None" "0 < Nprocs"
  shows "run_workers hp obs sh Nside Nprocs sched = Inr []"
  using assms
  by (simp add: run_workers_def array_split_def bindE_def Let_def vis_calc_none interleave_empty)






lemma make_visibilities_any_schedule:
  assumes "0 < Nprocs"
  shows "make_visibilities hp obs sh Nprocs sched = make_visibilities hp obs sh 1 []"
proof -
  have K: "(case run_workers hp obs sh Nside Nprocs sched of
              Inl e \<Rightarrow> Raises e
            | Inr queue \<Rightarrow> if queue = [] then Hangs else (case collect queue of (a, b, c) \<Rightarrow> G a b c))
         = (case run_workers hp obs sh Nside 1 [] of
              Inl e \<Rightarrow> Raises e
            | Inr queue \<Rightarrow> if queue = [] then Hangs else (case collect queue of (a, b, c) \<Rightarrow> G a b c))"
    for Nside and G :: "nat list \<Rightarrow> nat list \<Rightarrow> complex list list option list
      \<Rightarrow> (complex list list option list \<times> real list \<times> nat list) outcome"
  proof (cases "fov obs")
    case None
    have "run_workers hp obs sh Nside Nprocs sched = Inr []" "run_workers hp obs sh Nside 1 [] = Inr []"
      using None assms by (simp_all add: run_workers_unset_fov)
    then show ?thesis
      by (simp only:)
  next
    case (Some fv)
    let ?R = "\<lambda>(b, t). (t, b, snapshot_vis hp obs sh Nside (pointing_centers obs ! t) (array obs ! b))"
    obtain q1 where q1: "run_workers hp obs sh Nside Nprocs sched = Inr q1"
      and m1: "mset q1 = mset (map ?R (canonical_pairs obs))"
      using run_workers_mset [OF Some assms, of hp sh Nside sched] by blast
    obtain q2 where q2: "run_workers hp obs sh Nside 1 [] = Inr q2"
      and m2: "mset q2 = mset (map ?R (canonical_pairs obs))"
      using run_workers_mset [OF Some, of 1 hp sh Nside "[]"] by auto
    have c: "collect q1 = collect q2"
      using collect_canonical [OF m1 canonical_pairs_sorted]
        collect_canonical [OF m2 canonical_pairs_sorted] by simp
    have "mset q1 = mset q2"
      using m1 m2 by simp
    then have e: "q1 = [] \<longleftrightarrow> q2 = []"
      by (metis mset_zero_iff)
    show ?thesis
      unfolding q1 q2 by (simp add: c e)
  qed
  show ?thesis
    unfolding make_visibilities_def Let_def by (simp only: K)
qed

text \<open>
  C3. For one observatory and one shell, two calls of \<open>make_visibilities\<close> with any two
  worker counts of at least 1, and any two orders in which the rows reach the queue, have
  the same outcome: the same visibilities, times and baseline indices when they return.
\<close>

theorem make_visibilities_deterministic:
  assumes "0 < Nprocs1" "0 < Nprocs2"
  shows "make_visibilities hp obs sh Nprocs1 sched1 = make_visibilities hp obs sh Nprocs2 sched2"
  using make_visibilities_any_schedule [OF assms(1), of hp obs sh sched1]
    make_visibilities_any_schedule [OF assms(2), of hp obs sh sched2]
  by simp

theorem make_visibilities_deterministic_witness:
  "(0::nat) < 1 \<and> (0::nat) < 2
   \<and> make_visibilities (one_pixel (3 / 5, 0, 4 / 5)) obs0 shell0 1 []
       = make_visibilities (one_pixel (3 / 5, 0, 4 / 5)) obs0 shell0 2 [1, 0, 1]
   \<and> (\<exists>V T B. make_visibilities (one_pixel (3 / 5, 0, 4 / 5)) obs0 shell0 2 [1, 0, 1]
                 = Returns (V, T, B))"
proof -
  have h: "(0::nat) < 1" "(0::nat) < 2" by simp_all
  have "npix2nside (npix shell0) = Inr 1"
    using npix2nside_valid [of 1] by (simp add: shell0_def)
  then have "\<exists>V T B. make_visibilities (one_pixel (3 / 5, 0, 4 / 5)) obs0 shell0 2 [1, 0, 1]
                 = Returns (V, T, B)"
    using make_visibilities_canonical [of obs0 120 shell0 1 2 "one_pixel (3 / 5, 0, 4 / 5)" "[1, 0, 1]"]
    by (simp add: obs0_def shell0_def Nfreqs_def)
  then show ?thesis
    using h make_visibilities_deterministic [OF h, of "one_pixel (3 / 5, 0, 4 / 5)" obs0 shell0 "[]" "[1, 0, 1]"]
    by blast
qed

lemma frequency_mismatch_raises:
  assumes "nfreqs sh \<noteq> Nfreqs obs"
  shows "make_visibilities hp obs sh Nprocs sched = Raises AssertionError"
  using assms by (simp add: make_visibilities_def)

lemma invalid_npix_raises:
  assumes "nfreqs sh = Nfreqs obs" "\<forall>n. npix sh \<noteq> 12 * n\<^sup>2"
  shows "make_visibilities hp obs sh Nprocs sched = Raises ValueError"
  using assms(1) npix2nside_invalid [OF assms(2)] by (simp add: make_visibilities_def)

text \<open>
  C7, as the code behaves with the field of view unset. The frequency check and the pixel
  count check raise in the controller (the two lemmas above). The field of view is checked
  in \<open>calc_azza\<close>, which runs in the workers: every worker dies of its AttributeError
  before it puts a row, the controller sees no exception, and it blocks for ever reading the
  empty queue.
\<close>

theorem unset_fov_hangs:
  assumes "fov obs = None" "nfreqs sh = Nfreqs obs" "npix sh = 12 * Nside\<^sup>2" "0 < Nside"
    "0 < Nprocs"
  shows "make_visibilities hp obs sh Nprocs sched = Hangs"
proof -
  have "npix2nside (npix sh) = Inr Nside" "npix sh \<noteq> 0"
    using assms(3,4) by (simp_all add: npix2nside_valid)
  moreover have "run_workers hp obs sh Nside Nprocs sched = Inr []"
    using assms(1,5) by (rule run_workers_unset_fov)
  ultimately show ?thesis
    unfolding make_visibilities_def Let_def using assms(2) by simp
qed

theorem unset_fov_hangs_witness:
  "fov (obs0\<lparr>fov := None\<rparr>) = None \<and> nfreqs shell0 = Nfreqs (obs0\<lparr>fov := None\<rparr>)
   \<and> npix shell0 = 12 * 1\<^sup>2
   \<and> make_visibilities (one_pixel (3 / 5, 0, 4 / 5)) (obs0\<lparr>fov := None\<rparr>) shell0 2 [1, 0, 1] = Hangs"
  using unset_fov_hangs [of "obs0\<lparr>fov := None\<rparr>" shell0 1 2 "one_pixel (3 / 5, 0, 4 / 5)" "[1, 0, 1]"]
  by (simp add: obs0_def shell0_def Nfreqs_def)

subsection \<open>The value of a visibility\<close>

lemma run_workers_no_workers: "run_workers hp obs sh Nside 0 sched = Inl ValueError"
  by (simp add: run_workers_def array_split_def bindE_def)

lemma returns_canonical:
  assumes "make_visibilities hp obs sh Nprocs sched = Returns res" "npix2nside (npix sh) = Inr Nside"
  shows "nfreqs sh = Nfreqs obs \<and> fov obs \<noteq> None
     \<and> res = (map (div_conv (map (\<lambda>f. jy2Tstr f (4 * pi / real (npix sh))) (freqs obs)))
                        (map (\<lambda>(b, t). snapshot_vis hp obs sh Nside (pointing_centers obs ! t) (array obs ! b))
                             (canonical_pairs obs)),
                    map (\<lambda>t. times_jd obs ! t) (map snd (canonical_pairs obs)),
                    map fst (canonical_pairs obs))"
proof -
  let ?V = "\<lambda>t b. snapshot_vis hp obs sh Nside (pointing_centers obs ! t) (array obs ! b)"
  have nf: "nfreqs sh = Nfreqs obs"
    using assms(1) by (auto simp: make_visibilities_def split: if_splits)
  have np: "npix sh \<noteq> 0"
    using assms by (auto simp: make_visibilities_def split: if_splits)
  have core: "(case run_workers hp obs sh Nside Nprocs sched of
                 Inl e \<Rightarrow> Raises e
               | Inr queue \<Rightarrow>
                   if queue = [] then Hangs
                   else (case collect queue of
                     (time_inds_srt, baseline_array, visibilities) \<Rightarrow>
                       if \<exists>t \<in> set time_inds_srt. length (times_jd obs) \<le> t
                       then Raises IndexError
                       else Returns (map (div_conv (map (\<lambda>f. jy2Tstr f (4 * pi / real (npix sh))) (freqs obs)))
                                         visibilities,
                                     map (\<lambda>t. times_jd obs ! t) time_inds_srt,
                                     baseline_array))) = Returns res"
    using assms nf np by (simp add: make_visibilities_def Let_def)
  have pos: "0 < Nprocs"
  proof (rule ccontr)
    assume "\<not> 0 < Nprocs"
    then have "Nprocs = 0" by simp
    then show False
      using core by (simp add: run_workers_no_workers)
  qed
  have fv: "fov obs \<noteq> None"
  proof
    assume "fov obs = None"
    then have "run_workers hp obs sh Nside Nprocs sched = Inr []"
      using pos by (rule run_workers_unset_fov)
    then show False
      using core by simp
  qed
  then obtain fv where fvs: "fov obs = Some fv"
    by auto
  obtain queue where q: "run_workers hp obs sh Nside Nprocs sched = Inr queue"
    and m: "mset queue = mset (map (\<lambda>(b, t). (t, b, ?V t b)) (canonical_pairs obs))"
    using run_workers_mset [OF fvs pos, of hp sh Nside sched] by blast
  have col: "collect queue = (map snd (canonical_pairs obs), map fst (canonical_pairs obs),
                map (\<lambda>(b, t). ?V t b) (canonical_pairs obs))"
    using m canonical_pairs_sorted by (rule collect_canonical)
  have "res = (map (div_conv (map (\<lambda>f. jy2Tstr f (4 * pi / real (npix sh))) (freqs obs)))
                        (map (\<lambda>(b, t). ?V t b) (canonical_pairs obs)),
                    map (\<lambda>t. times_jd obs ! t) (map snd (canonical_pairs obs)),
                    map fst (canonical_pairs obs))"
    using core unfolding q by (simp add: col split: if_splits)
  then show ?thesis
    using nf fv by simp
qed

lemma canonical_pairs_nth:
  assumes "t < length (pointing_centers obs)" "b < length (array obs)"
  shows "b * length (pointing_centers obs) + t < length (canonical_pairs obs)"
    and "canonical_pairs obs ! (b * length (pointing_centers obs) + t) = (b, t)"
proof -
  let ?T = "length (pointing_centers obs)"
  have "b * ?T + t < b * ?T + ?T"
    using assms(1) by simp
  also have "\<dots> = Suc b * ?T"
    by simp
  also have "\<dots> \<le> length (array obs) * ?T"
    using assms(2) by (intro mult_le_mono1) simp
  finally have lt: "b * ?T + t < length (array obs) * ?T" .
  then show "b * ?T + t < length (canonical_pairs obs)"
    by (simp add: canonical_pairs_def)
  have T0: "?T \<noteq> 0"
    using assms(1) by auto
  have "(t + b * ?T) div ?T = b + t div ?T"
    using T0 by (rule div_mult_self1)
  then have d: "(b * ?T + t) div ?T = b"
    using assms(1) by (simp add: add.commute)
  have "(t + b * ?T) mod ?T = t mod ?T"
    by (rule mod_mult_self1)
  then have m: "(b * ?T + t) mod ?T = t"
    using assms(1) by (simp add: add.commute)
  note dm = d m
  show "canonical_pairs obs ! (b * ?T + t) = (b, t)"
    using lt assms unfolding canonical_pairs_def by (simp add: product_nth dm)
qed

lemma beam_val_length:
  assumes "length az_arr = length za_arr"
  shows "length (beam_val bm az_arr za_arr fq) = length za_arr"
  using assms by (cases bm) (simp_all add: beam_val_def)

lemma snapshot_finite:
  assumes "calc_azza hp (fov obs) Nside c = Inr (za_arr, az_arr, pix)"
    "those az_arr = Some az" "those za_arr = Some za"
    "those (beam_val (beam obs) az_arr za_arr None) = Some bm"
  shows "\<exists>fringe. make_fringe az za (freqs obs) (vec3_list (enu bl)) = Inr fringe
           \<and> snapshot_vis hp obs sh Nside c bl
                = Some (vis_sum sh pix (map (replicate (Nfreqs obs)) bm) fringe)
           \<and> length bm = length pix"
proof -
  have len: "length az_arr = length za_arr" "length za_arr = length pix"
    using calc_azza_lengths [OF assms(1)] by simp_all
  have l2: "length az = length za"
    using assms(2,3) len by (simp add: those_length)
  have lb: "length bm = length pix"
    using those_length [OF assms(4)] beam_val_length [OF len(1)] len(2) by simp
  have fc: "fringe_cube_of bl az_arr za_arr (freqs obs)
              = Inr (Some (map (\<lambda>k. map (\<lambda>l. fringe_spec (az ! k) (za ! k) (freqs obs ! l) (enu bl))
                                           [0..<length (freqs obs)])
                               [0..<length az]))"
    using assms(2,3) len(1) by (rule fringe_cube_of_finite)
  have mf: "make_fringe az za (freqs obs) (vec3_list (enu bl))
              = Inr (map (\<lambda>k. map (\<lambda>l. fringe_spec (az ! k) (za ! k) (freqs obs ! l) (enu bl))
                                     [0..<length (freqs obs)])
                         [0..<length az])"
    using l2 by (rule make_fringe_vec3)
  show ?thesis
    unfolding mf using lb by (simp add: snapshot_vis_def assms(1,4) fc vis_of_def)
qed

lemma snapshot_nan:
  assumes "calc_azza hp (fov obs) Nside c = Inr (za_arr, az_arr, pix)"
    "those az_arr = None \<or> those za_arr = None
       \<or> those (beam_val (beam obs) az_arr za_arr None) = None"
  shows "snapshot_vis hp obs sh Nside c bl = None"
proof -
  have len: "length az_arr = length za_arr"
    using calc_azza_lengths [OF assms(1)] by simp
  obtain fc where fc: "fringe_cube_of bl az_arr za_arr (freqs obs) = Inr fc"
    using fringe_cube_of_total [OF len] by blast
  have "those az_arr = None \<or> those za_arr = None \<Longrightarrow> fc = None"
    using fc by (auto simp: fringe_cube_of_def split: option.splits)
  then have "vis_of sh pix (beam_val (beam obs) az_arr za_arr None) (Nfreqs obs) fc = None"
    using assms(2) by (auto simp: vis_of_def split: option.splits)
  then show ?thesis
    by (simp add: snapshot_vis_def assms(1) fc)
qed

lemma vis_sum_nth:
  assumes "s < leading sh" "f < nfreqs sh" "f < Nf" "length bm = length pix"
  shows "vis_sum sh pix (map (replicate Nf) bm) fringe ! s ! f
           = (\<Sum>k\<leftarrow>[0..<length pix]. complex_of_real (temp sh s (pix ! k) f)
                   * complex_of_real (bm ! k) * fringe ! k ! f)"
proof -
  have "map (\<lambda>k. complex_of_real (temp sh s (pix ! k) f)
                   * complex_of_real (map (replicate Nf) bm ! k ! f) * fringe ! k ! f) [0..<length pix]
        = map (\<lambda>k. complex_of_real (temp sh s (pix ! k) f)
                   * complex_of_real (bm ! k) * fringe ! k ! f) [0..<length pix]"
    using assms(3,4) by (intro map_cong) simp_all
  then have "sum_list (map (\<lambda>k. complex_of_real (temp sh s (pix ! k) f)
                   * complex_of_real (map (replicate Nf) bm ! k ! f) * fringe ! k ! f) [0..<length pix])
        = sum_list (map (\<lambda>k. complex_of_real (temp sh s (pix ! k) f)
                   * complex_of_real (bm ! k) * fringe ! k ! f) [0..<length pix])"
    by (rule arg_cong)
  moreover have "vis_sum sh pix (map (replicate Nf) bm) fringe ! s ! f
      = sum_list (map (\<lambda>k. complex_of_real (temp sh s (pix ! k) f)
                   * complex_of_real (map (replicate Nf) bm ! k ! f) * fringe ! k ! f) [0..<length pix])"
    using assms(1,2) by (simp add: vis_sum_def)
  ultimately show ?thesis
    by (simp only:)
qed

lemma vis_sum_lengths:
  "length (vis_sum sh pix beam_cube fringe) = leading sh"
  "s < leading sh \<Longrightarrow> length (vis_sum sh pix beam_cube fringe ! s) = nfreqs sh"
  by (simp_all add: vis_sum_def)

lemma div_conv_nth:
  assumes "s < length v" "f < length (v ! s)" "f < length conv"
  shows "\<exists>row. div_conv conv (Some v) = Some row \<and> length row = length v
           \<and> length (row ! s) = min (length (v ! s)) (length conv)
           \<and> row ! s ! f = v ! s ! f / complex_of_real (conv ! f)"
  using assms by (simp add: div_conv_def)

text \<open>
  C2. When \<open>make_visibilities\<close> returns, the row of baseline \<open>b\<close> and time \<open>t\<close> holds the
  baseline index \<open>b\<close> and the time of index \<open>t\<close>. With the pixels \<open>pix\<close> and the angles
  that \<open>calc_azza\<close> gives for the pointing centre of \<open>t\<close>: if the angles and the beam are
  numbers, the visibility at sky \<open>s\<close> and frequency \<open>f\<close> is the sum over the selected
  pixels of sky times beam times fringe, with the beam of \<open>beam_val\<close> (the same at every
  frequency) and the fringe of \<open>make_fringe\<close> for this baseline, divided by \<open>jy2Tstr\<close> at
  the frequency \<open>f\<close> with the area \<open>4 pi / Npix\<close>; if an angle or a beam value is nan, the
  visibility is nan.
\<close>

theorem visibility_value:
  assumes "make_visibilities hp obs sh Nprocs sched = Returns (V, T, B)"
    and "npix2nside (npix sh) = Inr Nside"
    and "t < length (pointing_centers obs)" and "b < length (array obs)"
    and "calc_azza hp (fov obs) Nside (pointing_centers obs ! t) = Inr (za_arr, az_arr, pix)"
  shows "B ! row_index obs b t = b \<and> T ! row_index obs b t = times_jd obs ! t
     \<and> (\<forall>az za bm.
           those az_arr = Some az \<and> those za_arr = Some za
             \<and> those (beam_val (beam obs) az_arr za_arr None) = Some bm \<longrightarrow>
           (\<exists>fringe row.
              make_fringe az za (freqs obs) (vec3_list (enu (array obs ! b))) = Inr fringe
              \<and> V ! row_index obs b t = Some row \<and> length row = leading sh
              \<and> (\<forall>s<leading sh. length (row ! s) = nfreqs sh
                    \<and> (\<forall>f<nfreqs sh.
                          row ! s ! f
                            = (\<Sum>k\<leftarrow>[0..<length pix]. complex_of_real (temp sh s (pix ! k) f)
                                   * complex_of_real (bm ! k) * fringe ! k ! f)
                              / complex_of_real (jy2Tstr (freqs obs ! f) (4 * pi / real (npix sh)))))))
     \<and> (those az_arr = None \<or> those za_arr = None
           \<or> those (beam_val (beam obs) az_arr za_arr None) = None \<longrightarrow>
         V ! row_index obs b t = None)"
proof -
  let ?r = "row_index obs b t"
  let ?conv = "map (\<lambda>f. jy2Tstr f (4 * pi / real (npix sh))) (freqs obs)"
  let ?bl = "array obs ! b"
  let ?sv = "snapshot_vis hp obs sh Nside (pointing_centers obs ! t) ?bl"
  have rc: "nfreqs sh = Nfreqs obs"
    "V = map (div_conv ?conv)
             (map (\<lambda>(b, t). snapshot_vis hp obs sh Nside (pointing_centers obs ! t) (array obs ! b))
                  (canonical_pairs obs))"
    "T = map (\<lambda>t. times_jd obs ! t) (map snd (canonical_pairs obs))"
    "B = map fst (canonical_pairs obs)"
    using returns_canonical [OF assms(1,2)] by simp_all
  have r: "?r < length (canonical_pairs obs)" "canonical_pairs obs ! ?r = (b, t)"
    unfolding row_index_def using canonical_pairs_nth [OF assms(3,4)] by simp_all
  have Vr: "V ! ?r = div_conv ?conv ?sv"
    unfolding rc(2) using r by simp
  have TB: "B ! ?r = b" "T ! ?r = times_jd obs ! t"
    unfolding rc(3,4) using r by simp_all
  have fin: "\<exists>fringe row.
              make_fringe az za (freqs obs) (vec3_list (enu ?bl)) = Inr fringe
              \<and> V ! ?r = Some row \<and> length row = leading sh
              \<and> (\<forall>s<leading sh. length (row ! s) = nfreqs sh
                    \<and> (\<forall>f<nfreqs sh.
                          row ! s ! f
                            = (\<Sum>k\<leftarrow>[0..<length pix]. complex_of_real (temp sh s (pix ! k) f)
                                   * complex_of_real (bm ! k) * fringe ! k ! f)
                              / complex_of_real (jy2Tstr (freqs obs ! f) (4 * pi / real (npix sh)))))"
    if h: "those az_arr = Some az" "those za_arr = Some za"
      "those (beam_val (beam obs) az_arr za_arr None) = Some bm" for az za bm
  proof -
    obtain fringe where mf: "make_fringe az za (freqs obs) (vec3_list (enu ?bl)) = Inr fringe"
      and sv: "?sv = Some (vis_sum sh pix (map (replicate (Nfreqs obs)) bm) fringe)"
      and lb: "length bm = length pix"
      using snapshot_finite [OF assms(5) h, of ?bl sh] by blast
    let ?v = "vis_sum sh pix (map (replicate (Nfreqs obs)) bm) fringe"
    obtain row where row: "div_conv ?conv (Some ?v) = Some row"
      by (simp add: div_conv_def)
    have lr: "length row = leading sh"
      using row by (auto simp: div_conv_def vis_sum_lengths(1))
    have el: "length (row ! s) = nfreqs sh
        \<and> (\<forall>f<nfreqs sh. row ! s ! f
              = (\<Sum>k\<leftarrow>[0..<length pix]. complex_of_real (temp sh s (pix ! k) f)
                     * complex_of_real (bm ! k) * fringe ! k ! f)
                / complex_of_real (jy2Tstr (freqs obs ! f) (4 * pi / real (npix sh))))"
      if s: "s < leading sh" for s
    proof -
      have ls: "length (?v ! s) = nfreqs sh"
        using s by (rule vis_sum_lengths(2))
      have lc: "length ?conv = nfreqs sh"
        by (simp add: rc(1) Nfreqs_def)
      have rs: "row ! s = map2 (\<lambda>x c. x / complex_of_real c) (?v ! s) ?conv"
        using row s by (auto simp: div_conv_def vis_sum_lengths(1))
      have "length (row ! s) = nfreqs sh"
        unfolding rs using ls lc by simp
      moreover have "row ! s ! f
              = (\<Sum>k\<leftarrow>[0..<length pix]. complex_of_real (temp sh s (pix ! k) f)
                     * complex_of_real (bm ! k) * fringe ! k ! f)
                / complex_of_real (jy2Tstr (freqs obs ! f) (4 * pi / real (npix sh)))"
        if f: "f < nfreqs sh" for f
      proof -
        have fN: "f < Nfreqs obs" "f < length (freqs obs)"
          using f rc(1) by (simp_all add: Nfreqs_def)
        have "row ! s ! f = ?v ! s ! f / complex_of_real (?conv ! f)"
          unfolding rs using f ls lc by simp
        also have "?v ! s ! f = (\<Sum>k\<leftarrow>[0..<length pix]. complex_of_real (temp sh s (pix ! k) f)
                     * complex_of_real (bm ! k) * fringe ! k ! f)"
          using s f fN(1) lb by (rule vis_sum_nth)
        also have "?conv ! f = jy2Tstr (freqs obs ! f) (4 * pi / real (npix sh))"
          using fN(2) by simp
        finally show ?thesis .
      qed
      ultimately show ?thesis by blast
    qed
    have "V ! ?r = Some row"
      unfolding Vr sv by (rule row)
    then show ?thesis
      using mf lr el by blast
  qed
  have nan: "V ! ?r = None"
    if "those az_arr = None \<or> those za_arr = None
          \<or> those (beam_val (beam obs) az_arr za_arr None) = None"
    unfolding Vr using snapshot_nan [OF assms(5) that, of sh ?bl] by (simp add: div_conv_def)
  show ?thesis
    using TB fin nan by blast
qed

lemma calc_azza_example:
  "calc_azza (one_pixel (3 / 5, 0, 4 / 5)) (Some 120) 1 (0, 0)
     = Inr ([Some (arccos (3 / 5))], [Some pi], [0])"
  by (simp add: calc_azza_def one_pixel_def ang2vec_def radians_simps local_x_def local_y_def
      cross_def dot_def np_arccos_def azimuth_def arctan2_def fmod_pi Let_def)

theorem visibility_value_witness:
  "\<exists>V T B row. make_visibilities (one_pixel (3 / 5, 0, 4 / 5)) obs0 shell0 2 [1, 0, 1] = Returns (V, T, B)
      \<and> (0::nat) < length (pointing_centers obs0) \<and> (1::nat) < length (array obs0)
      \<and> B ! row_index obs0 1 0 = 1 \<and> T ! row_index obs0 1 0 = 2451545
      \<and> V ! row_index obs0 1 0 = Some row
      \<and> row ! 0 ! 0 = 2 / complex_of_real (jy2Tstr 100000000 (4 * pi / 12))"
proof -
  let ?hp = "one_pixel (3 / 5, 0, 4 / 5)"
  have ns: "npix2nside (npix shell0) = Inr 1"
    using npix2nside_valid [of 1] by (simp add: shell0_def)
  obtain V T B where ret: "make_visibilities ?hp obs0 shell0 2 [1, 0, 1] = Returns (V, T, B)"
    using ns make_visibilities_canonical [of obs0 120 shell0 1 2 ?hp "[1, 0, 1]"]
    by (simp add: obs0_def shell0_def Nfreqs_def)
  have t: "(0::nat) < length (pointing_centers obs0)" and b: "(1::nat) < length (array obs0)"
    by (simp_all add: obs0_def)
  have cz: "calc_azza ?hp (fov obs0) 1 (pointing_centers obs0 ! 0)
              = Inr ([Some (arccos (3 / 5))], [Some pi], [0])"
    using calc_azza_example by (simp add: obs0_def)
  have bv: "those (beam_val (beam obs0) [Some pi] [Some (arccos (3 / 5))] None) = Some [1]"
    by (simp add: obs0_def beam_val_def)
  have mf: "make_fringe [pi] [arccos (3 / 5)] (freqs obs0) (vec3_list (enu (array obs0 ! 1)))
              = Inr [[1]]"
    using make_fringe_vec3 [of "[pi]" "[arccos (3 / 5)]" "freqs obs0" "(0, 0, 0)"]
    by (simp add: obs0_def fringe_spec_zero)
  from visibility_value [OF ret ns t b cz]
  have TB: "B ! row_index obs0 1 0 = 1" "T ! row_index obs0 1 0 = times_jd obs0 ! 0"
    and fin: "\<And>az za bm. those [Some pi] = Some az \<Longrightarrow> those [Some (arccos (3 / 5))] = Some za
       \<Longrightarrow> those (beam_val (beam obs0) [Some pi] [Some (arccos (3 / 5))] None) = Some bm
       \<Longrightarrow> \<exists>fringe row.
              make_fringe az za (freqs obs0) (vec3_list (enu (array obs0 ! 1))) = Inr fringe
              \<and> V ! row_index obs0 1 0 = Some row \<and> length row = leading shell0
              \<and> (\<forall>s<leading shell0. length (row ! s) = nfreqs shell0
                    \<and> (\<forall>f<nfreqs shell0.
                          row ! s ! f
                            = (\<Sum>k\<leftarrow>[0..<length [0::nat]]. complex_of_real (temp shell0 s ([0] ! k) f)
                                   * complex_of_real (bm ! k) * fringe ! k ! f)
                              / complex_of_real (jy2Tstr (freqs obs0 ! f) (4 * pi / real (npix shell0)))))"
    by blast+
  obtain fringe row where
    f1: "make_fringe [pi] [arccos (3 / 5)] (freqs obs0) (vec3_list (enu (array obs0 ! 1))) = Inr fringe"
    and f2: "V ! row_index obs0 1 0 = Some row"
    and f3: "\<forall>s<leading shell0. length (row ! s) = nfreqs shell0
                    \<and> (\<forall>f<nfreqs shell0.
                          row ! s ! f
                            = (\<Sum>k\<leftarrow>[0..<length [0::nat]]. complex_of_real (temp shell0 s ([0] ! k) f)
                                   * complex_of_real ([1] ! k) * fringe ! k ! f)
                              / complex_of_real (jy2Tstr (freqs obs0 ! f) (4 * pi / real (npix shell0))))"
    using fin [of "[pi]" "[arccos (3 / 5)]" "[1]"] bv by auto
  have fr: "fringe = [[1]]"
    using f1 mf by simp
  have l0: "(0::nat) < leading shell0" "(0::nat) < nfreqs shell0"
    by (simp_all add: shell0_def leading_def)
  have "row ! 0 ! 0
          = (\<Sum>k\<leftarrow>[0..<length [0::nat]]. complex_of_real (temp shell0 0 ([0] ! k) 0)
                                   * complex_of_real ([1] ! k) * fringe ! k ! 0)
                              / complex_of_real (jy2Tstr (freqs obs0 ! 0) (4 * pi / real (npix shell0)))"
    using f3 l0 by blast
  then have "row ! 0 ! 0 = 2 / complex_of_real (jy2Tstr 100000000 (4 * pi / 12))"
    by (simp add: fr shell0_def obs0_def)
  then show ?thesis
    using ret t b TB f2 by (auto simp: obs0_def)
qed

end
